theory Spec2Isabelle
  imports Complex_Main "HOL-Library.AList" "HOL-Library.Sublist"
begin

section \<open>Data model\<close>

text \<open>
  The TypeScript interfaces of \<^verbatim>\<open>models/Expense.ts\<close>, \<^verbatim>\<open>models/ApprovalRule.ts\<close> and
  \<^verbatim>\<open>models/ApprovalFlow.ts\<close>. String-literal unions are datatypes, interfaces are records,
  optional fields are options. A \<^verbatim>\<open>Date\<close> is the number of milliseconds it holds. Numbers
  are modelled by their mathematical value: amounts and thresholds as reals, levels, counts
  and priorities as integers (NaN, infinities and rounding are not modelled). Field names
  that occur in several interfaces carry a prefix, since record fields share one name space.

  A level's array of role names is an object that the flow built from the level shares with
  it, so it is held by address: \<open>l_approverRoles\<close> and \<open>approverRoles\<close> are addresses into
  the store \<open>roleArrays\<close> of the program state. Everything else a flow takes from a rule is
  a number or a string, copied by value.

  The fields of a rule are options, \<open>None\<close> for \<^verbatim>\<open>undefined\<close>: the interface makes them
  all required, and \<^verbatim>\<open>updateRule\<close> can still store a rule in which one is \<^verbatim>\<open>undefined\<close>
  (see \<open>mergeRule\<close>). The rule id of a flow is a copy of the rule's, hence an option too.
\<close>

type_synonym Date = nat

type_synonym addr = nat

datatype ExpenseStatus = E_DRAFT | E_PENDING | E_APPROVED | E_REJECTED | E_CANCELLED

datatype ExpenseCategory = TRAVEL | MEALS | OFFICE_SUPPLIES | EQUIPMENT | TRAINING | OTHER

datatype Action = A_APPROVED | A_REJECTED

record ApprovalRecord =
  ar_approverId :: string
  ar_approverName :: string
  approverLevel :: int
  ar_action :: Action
  ar_timestamp :: Date
  ar_comments :: "string option"

record Expense =
  eid :: string
  employeeId :: string
  employeeName :: string
  amount :: real
  currency :: string
  category :: ExpenseCategory
  description :: string
  date :: Date
  estatus :: ExpenseStatus
  submittedAt :: "Date option"
  approvalHistory :: "ApprovalRecord list"
  attachments :: "string list option"

datatype ConditionType = AMOUNT | CATEGORY | DEPARTMENT | EMPLOYEE_LEVEL

datatype Operator =
  EQUALS | GREATER_THAN | LESS_THAN | GREATER_THAN_OR_EQUAL | LESS_THAN_OR_EQUAL | IN

datatype ConditionValue = NumV real | StrV string | ListV "string list"

record ApprovalCondition =
  ctype :: ConditionType
  operator :: Operator
  cvalue :: ConditionValue

record ApprovalLevel =
  l_level :: int
  l_approverRoles :: addr
  l_requiredApprovers :: int
  autoApprove :: "bool option"
  autoApproveThreshold :: "real option"

record ApprovalRule =
  rid :: "string option"
  rname :: "string option"
  rdescription :: "string option"
  conditions :: "ApprovalCondition list option"
  approvalLevels :: "ApprovalLevel list option"
  priority :: "int option"
  active :: "bool option"

datatype FlowStatus = F_PENDING | F_APPROVED | F_REJECTED

datatype StepStatus = S_PENDING | S_APPROVED | S_REJECTED | S_SKIPPED

record StepApproval =
  approverId :: string
  approverName :: string
  approverRole :: string
  action :: Action
  timestamp :: Date
  comments :: "string option"

record ApprovalStep =
  level :: int
  approverRoles :: addr
  requiredApprovers :: int
  approvals :: "StepApproval list"
  sstatus :: StepStatus
  startedAt :: "Date option"
  s_completedAt :: "Date option"

record ApprovalFlow =
  fid :: string
  expenseId :: string
  ruleId :: "string option"
  currentLevel :: int
  totalLevels :: int
  fstatus :: FlowStatus
  steps :: "ApprovalStep list"
  createdAt :: Date
  completedAt :: "Date option"

text \<open>
  Every \<^verbatim>\<open>throw new Error(...)\<close> of the three services is one constructor, named after the
  failure it reports. \<open>TypeError\<close> is the runtime error of reading or writing a property
  of \<^verbatim>\<open>undefined\<close> and of calling what is not a function.
\<close>

datatype error =
  NoMatchingRule | FlowNotFound | FlowAlreadyResolved | InvalidLevel | UnauthorizedRole
  | DuplicateApproval | ExpenseNotFound | AlreadySubmitted | NotPending | NoFlowForExpense
  | NotOwner | AlreadyFinal | TypeError

section \<open>JavaScript helpers\<close>

text \<open>The value of the string enum \<^verbatim>\<open>ExpenseCategory\<close> at run time.\<close>

fun categoryString :: "ExpenseCategory \<Rightarrow> string" where
  "categoryString TRAVEL = ''TRAVEL''"
| "categoryString MEALS = ''MEALS''"
| "categoryString OFFICE_SUPPLIES = ''OFFICE_SUPPLIES''"
| "categoryString EQUIPMENT = ''EQUIPMENT''"
| "categoryString TRAINING = ''TRAINING''"
| "categoryString OTHER = ''OTHER''"

text \<open>\<^verbatim>\<open>xs[i]\<close>: the element, or \<^verbatim>\<open>undefined\<close> (here \<open>None\<close>) outside the array.\<close>

definition jsIndex :: "'a list \<Rightarrow> int \<Rightarrow> 'a option" where
  "jsIndex xs i = (if 0 \<le> i \<and> i < int (length xs) then Some (xs ! nat i) else None)"

text \<open>\<^verbatim>\<open>xs.findIndex(p)\<close>, with \<open>None\<close> for \<^verbatim>\<open>-1\<close>.\<close>

fun findIndex :: "('a \<Rightarrow> bool) \<Rightarrow> 'a list \<Rightarrow> nat option" where
  "findIndex p [] = None"
| "findIndex p (x # xs) =
     (if p x then Some 0 else (case findIndex p xs of None \<Rightarrow> None | Some i \<Rightarrow> Some (Suc i)))"

text \<open>The decimal digits of a number, as template literals print \<^verbatim>\<open>Date.now()\<close>.\<close>

fun decimal :: "nat \<Rightarrow> string" where
  "decimal n =
     (if n < 10 then [''0123456789'' ! n]
      else decimal (n div 10) @ [''0123456789'' ! (n mod 10)])"

declare decimal.simps [simp del]

subsection \<open>Numbers from strings\<close>

text \<open>
  This part follows the language, not code of this repository: it is the conversion
  \<^verbatim>\<open>ToNumber\<close> that \<^verbatim>\<open><\<close>, \<^verbatim>\<open>>\<close>, \<^verbatim>\<open><=\<close> and \<^verbatim>\<open>>=\<close> apply to an operand that
  is a string (ECMA-262, \<^verbatim>\<open>StringToNumber\<close>). A string is read as the bytes of its UTF-8
  encoding. White space and line terminators are trimmed on both sides; the empty string
  is 0; then comes a hexadecimal, octal or binary integer with its prefix, or an optionally
  signed decimal literal (digits, fraction, exponent) or \<^verbatim>\<open>Infinity\<close>; anything else is
  \<^verbatim>\<open>NaN\<close>. The number is the mathematical value of the literal.
\<close>

datatype JSNumber = NaN | NegInfinity | Finite real | PosInfinity

definition strWhiteSpace :: "string list" where
  "strWhiteSpace =
     [[CHR 0x09], [CHR 0x0A], [CHR 0x0B], [CHR 0x0C], [CHR 0x0D], [CHR 0x20],
      [CHR 0xC2, CHR 0xA0], [CHR 0xE1, CHR 0x9A, CHR 0x80],
      [CHR 0xE2, CHR 0x80, CHR 0x80], [CHR 0xE2, CHR 0x80, CHR 0x81],
      [CHR 0xE2, CHR 0x80, CHR 0x82], [CHR 0xE2, CHR 0x80, CHR 0x83],
      [CHR 0xE2, CHR 0x80, CHR 0x84], [CHR 0xE2, CHR 0x80, CHR 0x85],
      [CHR 0xE2, CHR 0x80, CHR 0x86], [CHR 0xE2, CHR 0x80, CHR 0x87],
      [CHR 0xE2, CHR 0x80, CHR 0x88], [CHR 0xE2, CHR 0x80, CHR 0x89],
      [CHR 0xE2, CHR 0x80, CHR 0x8A], [CHR 0xE2, CHR 0x80, CHR 0xA8],
      [CHR 0xE2, CHR 0x80, CHR 0xA9], [CHR 0xE2, CHR 0x80, CHR 0xAF],
      [CHR 0xE2, CHR 0x81, CHR 0x9F], [CHR 0xE3, CHR 0x80, CHR 0x80],
      [CHR 0xEF, CHR 0xBB, CHR 0xBF]]"

function dropLeading :: "string list \<Rightarrow> string \<Rightarrow> string" where
  "dropLeading ws s =
     (case find (\<lambda>w. w \<noteq> [] \<and> prefix w s) ws of
        None \<Rightarrow> s
      | Some w \<Rightarrow> dropLeading ws (drop (length w) s))"
  by pat_completeness auto
termination
proof (relation "measure (\<lambda>(ws, s). length s)")
  show "wf (measure (\<lambda>(ws, s). length s))" by simp
next
  fix ws :: "string list" and s w :: string
  assume "find (\<lambda>w. w \<noteq> [] \<and> prefix w s) ws = Some w"
  then have "w \<noteq> []" "prefix w s" by (auto simp: find_Some_iff)
  then have "0 < length w" "length w \<le> length s" by (auto dest: prefix_length_le)
  then show "((ws, drop (length w) s), (ws, s)) \<in> measure (\<lambda>(ws, s). length s)"
    by (cases w; cases s) auto
qed

declare dropLeading.simps [simp del]

definition trim :: "string \<Rightarrow> string" where
  "trim s = rev (dropLeading (map rev strWhiteSpace) (rev (dropLeading strWhiteSpace s)))"

definition digitOf :: "nat \<Rightarrow> char \<Rightarrow> nat option" where
  "digitOf base c =
     (case map_of (zip ''0123456789abcdefABCDEF''
                    [0, 1, 2, 3, 4, 5, 6, 7, 8, 9, 10, 11, 12, 13, 14, 15, 10, 11, 12, 13, 14, 15]) c of
        None \<Rightarrow> None
      | Some d \<Rightarrow> if d < base then Some d else None)"

fun digitsFrom :: "nat \<Rightarrow> nat \<Rightarrow> string \<Rightarrow> nat option" where
  "digitsFrom base acc [] = Some acc"
| "digitsFrom base acc (c # cs) =
     (case digitOf base c of
        None \<Rightarrow> None
      | Some d \<Rightarrow> digitsFrom base (acc * base + d) cs)"

definition digits :: "nat \<Rightarrow> string \<Rightarrow> nat option" where
  "digits base ds = (if ds = [] then None else digitsFrom base 0 ds)"

definition isDecimalDigit :: "char \<Rightarrow> bool" where
  "isDecimalDigit c = (digitOf 10 c \<noteq> None)"

definition nonDecimalIntegerLiteral :: "string \<Rightarrow> nat option" where
  "nonDecimalIntegerLiteral s =
     (case s of
        z # x # ds \<Rightarrow>
          if z \<noteq> CHR ''0'' then None
          else if x = CHR ''x'' \<or> x = CHR ''X'' then digits 16 ds
          else if x = CHR ''o'' \<or> x = CHR ''O'' then digits 8 ds
          else if x = CHR ''b'' \<or> x = CHR ''B'' then digits 2 ds
          else None
      | _ \<Rightarrow> None)"

definition exponentPart :: "string \<Rightarrow> int option" where
  "exponentPart s =
     (case s of
        [] \<Rightarrow> Some 0
      | c # r \<Rightarrow>
          if c = CHR ''e'' \<or> c = CHR ''E'' then
            (case r of
               CHR ''+'' # ds \<Rightarrow> map_option int (digits 10 ds)
             | CHR ''-'' # ds \<Rightarrow> map_option (\<lambda>n. - int n) (digits 10 ds)
             | _ \<Rightarrow> map_option int (digits 10 r))
          else None)"

definition scale :: "real \<Rightarrow> int \<Rightarrow> real" where
  "scale m ex = (if 0 \<le> ex then m * 10 ^ nat ex else m / 10 ^ nat (- ex))"

definition strUnsignedDecimalLiteral :: "string \<Rightarrow> JSNumber" where
  "strUnsignedDecimalLiteral s =
     (if s = ''Infinity'' then PosInfinity
      else
        (let ip = takeWhile isDecimalDigit s;
             r1 = dropWhile isDecimalDigit s;
             fp = (case r1 of CHR ''.'' # r \<Rightarrow> takeWhile isDecimalDigit r | _ \<Rightarrow> []);
             r2 = (case r1 of CHR ''.'' # r \<Rightarrow> dropWhile isDecimalDigit r | _ \<Rightarrow> r1)
         in
           if ip = [] \<and> fp = [] then NaN
           else
             (case exponentPart r2 of
                None \<Rightarrow> NaN
              | Some ex \<Rightarrow>
                  Finite
                    (scale
                       (real (the (digitsFrom 10 0 ip))
                          + real (the (digitsFrom 10 0 fp)) / 10 ^ length fp)
                       ex))))"

definition negateJS :: "JSNumber \<Rightarrow> JSNumber" where
  "negateJS n =
     (case n of NaN \<Rightarrow> NaN | NegInfinity \<Rightarrow> PosInfinity | PosInfinity \<Rightarrow> NegInfinity
      | Finite x \<Rightarrow> Finite (- x))"

definition toNumber :: "string \<Rightarrow> JSNumber" where
  "toNumber str =
     (let s = trim str in
        if s = [] then Finite 0
        else
          (case nonDecimalIntegerLiteral s of
             Some n \<Rightarrow> Finite (real n)
           | None \<Rightarrow>
               (case s of
                  CHR ''+'' # r \<Rightarrow> strUnsignedDecimalLiteral r
                | CHR ''-'' # r \<Rightarrow> negateJS (strUnsignedDecimalLiteral r)
                | _ \<Rightarrow> strUnsignedDecimalLiteral s)))"

text \<open>\<^verbatim>\<open>ToPrimitive\<close> of an array of strings: \<^verbatim>\<open>join(',')\<close>.\<close>

fun joinComma :: "string list \<Rightarrow> string" where
  "joinComma [] = []"
| "joinComma [x] = x"
| "joinComma (x # y # ys) = x @ '','' @ joinComma (y # ys)"

text \<open>
  The four comparisons of a number with a converted operand; each is false on \<^verbatim>\<open>NaN\<close>.
\<close>

definition lessThanJS :: "real \<Rightarrow> JSNumber \<Rightarrow> bool" where
  "lessThanJS x n =
     (case n of NaN \<Rightarrow> False | NegInfinity \<Rightarrow> False | Finite y \<Rightarrow> x < y | PosInfinity \<Rightarrow> True)"

definition greaterThanJS :: "real \<Rightarrow> JSNumber \<Rightarrow> bool" where
  "greaterThanJS x n =
     (case n of NaN \<Rightarrow> False | NegInfinity \<Rightarrow> True | Finite y \<Rightarrow> x > y | PosInfinity \<Rightarrow> False)"

definition lessEqualJS :: "real \<Rightarrow> JSNumber \<Rightarrow> bool" where
  "lessEqualJS x n =
     (case n of NaN \<Rightarrow> False | NegInfinity \<Rightarrow> False | Finite y \<Rightarrow> x \<le> y | PosInfinity \<Rightarrow> True)"

definition greaterEqualJS :: "real \<Rightarrow> JSNumber \<Rightarrow> bool" where
  "greaterEqualJS x n =
     (case n of NaN \<Rightarrow> False | NegInfinity \<Rightarrow> True | Finite y \<Rightarrow> x \<ge> y | PosInfinity \<Rightarrow> False)"

text \<open>\<^verbatim>\<open>s.includes(t)\<close> on strings: \<open>t\<close> occurs in \<open>s\<close> as a contiguous part.\<close>

fun includesString :: "string \<Rightarrow> string \<Rightarrow> bool" where
  "includesString [] t = (t = [])"
| "includesString (c # s) t = (prefix t (c # s) \<or> includesString s t)"

section \<open>Program state\<close>

text \<open>
  The objects the operations work on: the arrays of role names by address, the array
  \<^verbatim>\<open>rules\<close> of the rule engine, and the \<^verbatim>\<open>Map\<close> of flows of the flow service, which holds
  the engine. A JavaScript \<^verbatim>\<open>Map\<close> iterates in insertion order and \<^verbatim>\<open>set\<close> on a
  present key keeps the key's place, so the map is an association list: \<open>map_of\<close> is
  \<^verbatim>\<open>get\<close>, \<open>AList.update\<close> is \<^verbatim>\<open>set\<close>. Every method of the engine and of the service
  is a function of this state, so that whatever a method writes, or leaves alone, is its
  own doing.

  The clock is a parameter \<open>now\<close>: every \<^verbatim>\<open>new Date()\<close> and \<^verbatim>\<open>Date.now()\<close> of one call
  reads it. An operation returns its outcome (\<open>Inl\<close> the error thrown) together with the
  state it leaves behind, so that a mutation made before a throw stays visible.
\<close>

record ApprovalFlowService =
  roleArrays :: "addr \<Rightarrow> string list"
  ruleEngine :: "ApprovalRule list"
  flows :: "(string \<times> ApprovalFlow) list"

section \<open>ApprovalRuleEngine\<close>

text \<open>
  \<^verbatim>\<open>sort((a, b) => b.priority - a.priority)\<close>. When every rule has a priority the
  comparator is consistent and the sort is the stable sort by descending priority, which
  is the stable ascending sort on the negated priority. When a priority is \<^verbatim>\<open>undefined\<close>
  the comparator returns \<^verbatim>\<open>NaN\<close> and the language leaves the order to the implementation:
  it is the parameter \<open>impl\<close>, of which nothing is assumed. An array of at most one
  element is left as it is by any sort.
\<close>

definition hasPriority :: "ApprovalRule \<Rightarrow> bool" where
  "hasPriority r = (priority r \<noteq> None)"

definition priorityOf :: "ApprovalRule \<Rightarrow> int" where
  "priorityOf r = (case priority r of None \<Rightarrow> 0 | Some p \<Rightarrow> p)"

definition sortByPriority ::
  "(ApprovalRule list \<Rightarrow> ApprovalRule list) \<Rightarrow> ApprovalRule list \<Rightarrow> ApprovalRule list" where
  "sortByPriority impl rs =
     (if list_all hasPriority rs then sort_key (\<lambda>r. - priorityOf r) rs
      else if length rs \<le> 1 then rs
      else impl rs)"

definition constructor ::
  "(ApprovalRule list \<Rightarrow> ApprovalRule list) \<Rightarrow> ApprovalRule list \<Rightarrow> ApprovalRule list" where
  "constructor impl rs = sortByPriority impl rs"

text \<open>
  \<^verbatim>\<open>condition.value as number\<close> is a cast that does nothing at run time. \<^verbatim>\<open>===\<close> holds
  for an equal number only; the four comparisons convert a string, and an array through
  its \<^verbatim>\<open>join\<close>, to a number. The \<^verbatim>\<open>default\<close> branch is the operator \<^verbatim>\<open>IN\<close>.
\<close>

definition thresholdOf :: "ConditionValue \<Rightarrow> JSNumber" where
  "thresholdOf v =
     (case v of NumV x \<Rightarrow> Finite x | StrV s \<Rightarrow> toNumber s | ListV xs \<Rightarrow> toNumber (joinComma xs))"

fun evaluateAmountCondition :: "ApprovalCondition \<Rightarrow> real \<Rightarrow> bool" where
  "evaluateAmountCondition c amt =
     (case operator c of
        EQUALS \<Rightarrow> (case cvalue c of NumV threshold \<Rightarrow> amt = threshold | _ \<Rightarrow> False)
      | GREATER_THAN \<Rightarrow> greaterThanJS amt (thresholdOf (cvalue c))
      | LESS_THAN \<Rightarrow> lessThanJS amt (thresholdOf (cvalue c))
      | GREATER_THAN_OR_EQUAL \<Rightarrow> greaterEqualJS amt (thresholdOf (cvalue c))
      | LESS_THAN_OR_EQUAL \<Rightarrow> lessEqualJS amt (thresholdOf (cvalue c))
      | IN \<Rightarrow> False)"

text \<open>
  \<^verbatim>\<open>category === condition.value\<close> holds for an equal string only. The cast
  \<^verbatim>\<open>condition.value as string[]\<close> does nothing at run time: \<^verbatim>\<open>includes\<close> is the membership
  test of an array, the substring test of a string, and is no function of a number, whose
  call throws \<^verbatim>\<open>TypeError\<close>. The \<^verbatim>\<open>default\<close> branch is the four comparison operators.
\<close>

fun evaluateCategoryCondition :: "ApprovalCondition \<Rightarrow> ExpenseCategory \<Rightarrow> error + bool" where
  "evaluateCategoryCondition c cat =
     (case operator c of
        EQUALS \<Rightarrow> Inr (case cvalue c of StrV s \<Rightarrow> categoryString cat = s | _ \<Rightarrow> False)
      | IN \<Rightarrow>
          (case cvalue c of
             ListV allowedCategories \<Rightarrow> Inr (categoryString cat \<in> set allowedCategories)
           | StrV s \<Rightarrow> Inr (includesString s (categoryString cat))
           | NumV x \<Rightarrow> Inl TypeError)
      | _ \<Rightarrow> Inr False)"

text \<open>The condition types are all listed, so the \<^verbatim>\<open>default\<close> branch has no case.\<close>

fun evaluateCondition :: "ApprovalCondition \<Rightarrow> Expense \<Rightarrow> error + bool" where
  "evaluateCondition c e =
     (case ctype c of
        AMOUNT \<Rightarrow> Inr (evaluateAmountCondition c (amount e))
      | CATEGORY \<Rightarrow> evaluateCategoryCondition c (category e)
      | DEPARTMENT \<Rightarrow> Inr True
      | EMPLOYEE_LEVEL \<Rightarrow> Inr True)"

text \<open>
  \<^verbatim>\<open>conditions.every(...)\<close> stops at the first condition that is false, and at the first
  that throws; on \<^verbatim>\<open>undefined\<close> conditions the call itself throws.
\<close>

fun everyCondition :: "ApprovalCondition list \<Rightarrow> Expense \<Rightarrow> error + bool" where
  "everyCondition [] e = Inr True"
| "everyCondition (c # cs) e =
     (case evaluateCondition c e of
        Inl err \<Rightarrow> Inl err
      | Inr ok \<Rightarrow> if ok then everyCondition cs e else Inr False)"

definition evaluateRule :: "ApprovalRule \<Rightarrow> Expense \<Rightarrow> error + bool" where
  "evaluateRule r e =
     (case conditions r of None \<Rightarrow> Inl TypeError | Some cs \<Rightarrow> everyCondition cs e)"

text \<open>
  The loop of \<^verbatim>\<open>findMatchingRule\<close> over the rules whose \<^verbatim>\<open>active\<close> is truthy: it returns at
  the first rule that matches and is left by the first evaluation that throws.
\<close>

fun firstMatch :: "ApprovalRule list \<Rightarrow> Expense \<Rightarrow> error + ApprovalRule option" where
  "firstMatch [] e = Inr None"
| "firstMatch (r # rs) e =
     (case evaluateRule r e of
        Inl err \<Rightarrow> Inl err
      | Inr ok \<Rightarrow> if ok then Inr (Some r) else firstMatch rs e)"

definition findMatchingRule :: "ApprovalRule list \<Rightarrow> Expense \<Rightarrow> error + ApprovalRule option" where
  "findMatchingRule rules e = firstMatch (filter (\<lambda>r. active r = Some True) rules) e"



definition addRule ::
  "(ApprovalRule list \<Rightarrow> ApprovalRule list) \<Rightarrow> ApprovalFlowService \<Rightarrow> ApprovalRule
     \<Rightarrow> ApprovalFlowService" where
  "addRule impl svc r = svc\<lparr>ruleEngine := sortByPriority impl (ruleEngine svc @ [r])\<rparr>"

text \<open>
  \<^verbatim>\<open>Partial<ApprovalRule>\<close>: each key may be absent, and a key that is present may hold
  \<^verbatim>\<open>undefined\<close>. The spread \<^verbatim>\<open>{ ...this.rules[index], ...updates }\<close> builds a new object
  in which the keys present in \<^verbatim>\<open>updates\<close> win, \<^verbatim>\<open>undefined\<close> included; the new object
  takes the place of the old one in the array, which is sorted again. No existing rule,
  level or role array is written to.
\<close>

datatype 'a partialKey = Absent | Present "'a option"

record RuleUpdates =
  u_id :: "string partialKey"
  u_name :: "string partialKey"
  u_description :: "string partialKey"
  u_conditions :: "ApprovalCondition list partialKey"
  u_approvalLevels :: "ApprovalLevel list partialKey"
  u_priority :: "int partialKey"
  u_active :: "bool partialKey"

definition noUpdates :: RuleUpdates where
  "noUpdates = \<lparr>u_id = Absent, u_name = Absent, u_description = Absent, u_conditions = Absent,
     u_approvalLevels = Absent, u_priority = Absent, u_active = Absent\<rparr>"

definition mergeRule :: "ApprovalRule \<Rightarrow> RuleUpdates \<Rightarrow> ApprovalRule" where
  "mergeRule r u =
     \<lparr>rid = (case u_id u of Absent \<Rightarrow> rid r | Present v \<Rightarrow> v),
      rname = (case u_name u of Absent \<Rightarrow> rname r | Present v \<Rightarrow> v),
      rdescription = (case u_description u of Absent \<Rightarrow> rdescription r | Present v \<Rightarrow> v),
      conditions = (case u_conditions u of Absent \<Rightarrow> conditions r | Present v \<Rightarrow> v),
      approvalLevels =
        (case u_approvalLevels u of Absent \<Rightarrow> approvalLevels r | Present v \<Rightarrow> v),
      priority = (case u_priority u of Absent \<Rightarrow> priority r | Present v \<Rightarrow> v),
      active = (case u_active u of Absent \<Rightarrow> active r | Present v \<Rightarrow> v)\<rparr>"

definition updateRule ::
  "(ApprovalRule list \<Rightarrow> ApprovalRule list) \<Rightarrow> ApprovalFlowService \<Rightarrow> string \<Rightarrow> RuleUpdates
     \<Rightarrow> bool \<times> ApprovalFlowService" where
  "updateRule impl svc ruleId' updates =
     (case findIndex (\<lambda>r. rid r = Some ruleId') (ruleEngine svc) of
        None \<Rightarrow> (False, svc)
      | Some index \<Rightarrow>
          (True,
           svc\<lparr>ruleEngine :=
                 sortByPriority impl
                   ((ruleEngine svc)[index := mergeRule (ruleEngine svc ! index) updates])\<rparr>))"

definition deactivateRule ::
  "(ApprovalRule list \<Rightarrow> ApprovalRule list) \<Rightarrow> ApprovalFlowService \<Rightarrow> string
     \<Rightarrow> bool \<times> ApprovalFlowService" where
  "deactivateRule impl svc ruleId' =
     updateRule impl svc ruleId' (noUpdates\<lparr>u_active := Present (Some False)\<rparr>)"

text \<open>A sequence of calls of the three editing methods of the engine.\<close>

datatype RuleEdit = AddRule ApprovalRule | UpdateRule string RuleUpdates | DeactivateRule string

fun ruleEdit ::
  "(ApprovalRule list \<Rightarrow> ApprovalRule list) \<Rightarrow> ApprovalFlowService \<Rightarrow> RuleEdit
     \<Rightarrow> ApprovalFlowService" where
  "ruleEdit impl svc (AddRule r) = addRule impl svc r"
| "ruleEdit impl svc (UpdateRule k u) = snd (updateRule impl svc k u)"
| "ruleEdit impl svc (DeactivateRule k) = snd (deactivateRule impl svc k)"

definition ruleEdits ::
  "(ApprovalRule list \<Rightarrow> ApprovalRule list) \<Rightarrow> ApprovalFlowService \<Rightarrow> RuleEdit list
     \<Rightarrow> ApprovalFlowService" where
  "ruleEdits impl svc edits = foldl (ruleEdit impl) svc edits"

section \<open>ApprovalFlowService\<close>

text \<open>
  A new service over an engine, in a program whose role arrays are \<open>roles\<close>.
\<close>

definition newApprovalFlowService ::
  "ApprovalRule list \<Rightarrow> (addr \<Rightarrow> string list) \<Rightarrow> ApprovalFlowService" where
  "newApprovalFlowService engine roles = \<lparr>roleArrays = roles, ruleEngine = engine, flows = []\<rparr>"

text \<open>
  The two object literals of \<^verbatim>\<open>createApprovalFlow\<close>: the step built by the callback of
  \<^verbatim>\<open>rule.approvalLevels.map\<close>, which takes the level's array of roles as it is, by
  reference, and the flow. Reading \<^verbatim>\<open>length\<close> of \<^verbatim>\<open>undefined\<close> levels throws before
  anything is stored.
\<close>

definition newStep :: "Date \<Rightarrow> nat \<times> ApprovalLevel \<Rightarrow> ApprovalStep" where
  "newStep now = (\<lambda>(index, lvl).
     \<lparr>level = l_level lvl,
      approverRoles = l_approverRoles lvl,
      requiredApprovers = l_requiredApprovers lvl,
      approvals = [],
      sstatus = (if index = 0 then S_PENDING else S_PENDING),
      startedAt = (if index = 0 then Some now else None),
      s_completedAt = None\<rparr>)"

definition newFlow :: "Expense \<Rightarrow> ApprovalRule \<Rightarrow> ApprovalLevel list \<Rightarrow> Date \<Rightarrow> ApprovalFlow" where
  "newFlow expense rule levels now =
     \<lparr>fid = ''flow-'' @ eid expense @ ''-'' @ decimal now,
      expenseId = eid expense,
      ruleId = rid rule,
      currentLevel = 1,
      totalLevels = int (length levels),
      fstatus = F_PENDING,
      steps = map (newStep now) (enumerate 0 levels),
      createdAt = now,
      completedAt = None\<rparr>"

definition createApprovalFlow ::
  "ApprovalFlowService \<Rightarrow> Expense \<Rightarrow> Date \<Rightarrow> (error + ApprovalFlow) \<times> ApprovalFlowService" where
  "createApprovalFlow svc expense now =
     (case findMatchingRule (ruleEngine svc) expense of
        Inl err \<Rightarrow> (Inl err, svc)
      | Inr None \<Rightarrow> (Inl NoMatchingRule, svc)
      | Inr (Some rule) \<Rightarrow>
          (case approvalLevels rule of
             None \<Rightarrow> (Inl TypeError, svc)
           | Some levels \<Rightarrow>
               (let flow = newFlow expense rule levels now
                in (Inr flow, svc\<lparr>flows := AList.update (fid flow) flow (flows svc)\<rparr>))))"

text \<open>
  The \<^verbatim>\<open>StepApproval\<close> literal of \<^verbatim>\<open>processApproval\<close>, and the count
  \<^verbatim>\<open>approvals.filter(a => a.action === 'APPROVED').length\<close> of a step.
\<close>

definition mkApproval ::
  "string \<Rightarrow> string \<Rightarrow> string \<Rightarrow> Action \<Rightarrow> string option \<Rightarrow> Date \<Rightarrow> StepApproval" where
  "mkApproval aId aName aRole act cmts now =
     \<lparr>approverId = aId, approverName = aName, approverRole = aRole,
      action = act, timestamp = now, comments = cmts\<rparr>"

definition approvedCount :: "ApprovalStep \<Rightarrow> int" where
  "approvedCount st = int (length (filter (\<lambda>a. action a = A_APPROVED) (approvals st)))"

text \<open>
  The flow object is mutated in place, so each write is a new value stored under the key
  the flow was fetched by. The roles a step accepts are read from its array at the time of
  the call. When the level advances and \<^verbatim>\<open>flow.steps[flow.currentLevel - 1]\<close> is
  \<^verbatim>\<open>undefined\<close>, the assignment to \<^verbatim>\<open>nextStep.startedAt\<close> throws after the step and the
  level have been written.
\<close>

definition processApproval ::
  "ApprovalFlowService \<Rightarrow> string \<Rightarrow> string \<Rightarrow> string \<Rightarrow> string \<Rightarrow> Action \<Rightarrow> string option \<Rightarrow> Date
     \<Rightarrow> (error + ApprovalFlow) \<times> ApprovalFlowService" where
  "processApproval svc flowId aId aName aRole act cmts now =
     (case map_of (flows svc) flowId of
        None \<Rightarrow> (Inl FlowNotFound, svc)
      | Some flow \<Rightarrow>
          if fstatus flow \<noteq> F_PENDING then (Inl FlowAlreadyResolved, svc)
          else
            (case jsIndex (steps flow) (currentLevel flow - 1) of
               None \<Rightarrow> (Inl InvalidLevel, svc)
             | Some currentStep \<Rightarrow>
                 if aRole \<notin> set (roleArrays svc (approverRoles currentStep))
                 then (Inl UnauthorizedRole, svc)
                 else if find (\<lambda>a. approverId a = aId) (approvals currentStep) \<noteq> None
                 then (Inl DuplicateApproval, svc)
                 else
                   (let approval = mkApproval aId aName aRole act cmts now;
                        i = nat (currentLevel flow - 1);
                        pushed = currentStep\<lparr>approvals := approvals currentStep @ [approval]\<rparr>;
                        store = (\<lambda>f. svc\<lparr>flows := AList.update flowId f (flows svc)\<rparr>)
                    in
                      if act = A_REJECTED then
                        (let flow' =
                           flow\<lparr>steps := (steps flow)
                                   [i := pushed\<lparr>sstatus := S_REJECTED, s_completedAt := Some now\<rparr>],
                                fstatus := F_REJECTED, completedAt := Some now\<rparr>
                         in (Inr flow', store flow'))
                      else if approvedCount pushed \<ge> requiredApprovers pushed then
                        (let flow1 =
                           flow\<lparr>steps := (steps flow)
                                   [i := pushed\<lparr>sstatus := S_APPROVED, s_completedAt := Some now\<rparr>]\<rparr>
                         in
                           if currentLevel flow1 < totalLevels flow1 then
                             (let flow2 = flow1\<lparr>currentLevel := currentLevel flow1 + 1\<rparr>
                              in
                                (case jsIndex (steps flow2) (currentLevel flow2 - 1) of
                                   None \<Rightarrow> (Inl TypeError, store flow2)
                                 | Some nextStep \<Rightarrow>
                                     (let flow3 =
                                        flow2\<lparr>steps := (steps flow2)
                                                [nat (currentLevel flow2 - 1) :=
                                                   nextStep\<lparr>startedAt := Some now\<rparr>]\<rparr>
                                      in (Inr flow3, store flow3))))
                           else
                             (let flow2 = flow1\<lparr>fstatus := F_APPROVED, completedAt := Some now\<rparr>
                              in (Inr flow2, store flow2)))
                      else
                        (let flow1 = flow\<lparr>steps := (steps flow)[i := pushed]\<rparr>
                         in (Inr flow1, store flow1)))))"

text \<open>A sequence of \<^verbatim>\<open>processApproval\<close> calls on one flow, each given as its arguments.\<close>

type_synonym approvalCall = "string \<times> string \<times> string \<times> Action \<times> string option \<times> Date"

fun processApprovals ::
  "ApprovalFlowService \<Rightarrow> string \<Rightarrow> approvalCall list
     \<Rightarrow> (error + ApprovalFlow) list \<times> ApprovalFlowService" where
  "processApprovals svc flowId [] = ([], svc)"
| "processApprovals svc flowId ((aId, aName, aRole, act, cmts, now) # calls) =
     (case processApproval svc flowId aId aName aRole act cmts now of
        (res, svc') \<Rightarrow>
          (case processApprovals svc' flowId calls of
             (ress, svc'') \<Rightarrow> (res # ress, svc'')))"

definition getFlow :: "ApprovalFlowService \<Rightarrow> string \<Rightarrow> ApprovalFlow option" where
  "getFlow svc flowId = map_of (flows svc) flowId"

definition getFlowByExpenseId :: "ApprovalFlowService \<Rightarrow> string \<Rightarrow> ApprovalFlow option" where
  "getFlowByExpenseId svc expenseId' = find (\<lambda>flow. expenseId flow = expenseId') (map snd (flows svc))"

section \<open>ExpenseService\<close>

record ExpenseService =
  expenses :: "(string \<times> Expense) list"
  approvalFlowService :: ApprovalFlowService

definition newExpenseService :: "ApprovalFlowService \<Rightarrow> ExpenseService" where
  "newExpenseService fs = \<lparr>expenses = [], approvalFlowService = fs\<rparr>"

text \<open>
  \<^verbatim>\<open>Math.random().toString(36).substr(2, 9)\<close> is the parameter \<open>rnd\<close>.
\<close>

definition createExpense ::
  "ExpenseService \<Rightarrow> string \<Rightarrow> string \<Rightarrow> real \<Rightarrow> string \<Rightarrow> ExpenseCategory \<Rightarrow> string \<Rightarrow> Date
     \<Rightarrow> string list option \<Rightarrow> Date \<Rightarrow> string \<Rightarrow> Expense \<times> ExpenseService" where
  "createExpense svc employeeId' employeeName' amount' currency' category' description' date'
       attachments' now rnd =
     (let expense =
        \<lparr>eid = ''exp-'' @ decimal now @ ''-'' @ rnd,
         employeeId = employeeId', employeeName = employeeName', amount = amount',
         currency = currency', category = category', description = description', date = date',
         estatus = E_DRAFT, submittedAt = None, approvalHistory = [],
         attachments = (case attachments' of None \<Rightarrow> Some [] | Some a \<Rightarrow> Some a)\<rparr>
      in (expense, svc\<lparr>expenses := AList.update (eid expense) expense (expenses svc)\<rparr>))"

text \<open>
  The expense object is written (status, then timestamp) before \<^verbatim>\<open>createApprovalFlow\<close> is
  called; an error thrown there leaves these writes in the stored expense. The
  \<^verbatim>\<open>!flow\<close> branch is dead: \<^verbatim>\<open>createApprovalFlow\<close> returns a flow or throws.
\<close>

definition submitExpense ::
  "ExpenseService \<Rightarrow> string \<Rightarrow> Date \<Rightarrow> (error + Expense \<times> string) \<times> ExpenseService" where
  "submitExpense svc expenseId' now =
     (case map_of (expenses svc) expenseId' of
        None \<Rightarrow> (Inl ExpenseNotFound, svc)
      | Some expense \<Rightarrow>
          if estatus expense \<noteq> E_DRAFT then (Inl AlreadySubmitted, svc)
          else
            (let expense' = expense\<lparr>estatus := E_PENDING, submittedAt := Some now\<rparr>;
                 svc' = svc\<lparr>expenses := AList.update expenseId' expense' (expenses svc)\<rparr>
             in
               (case createApprovalFlow (approvalFlowService svc') expense' now of
                  (Inl err, fs) \<Rightarrow> (Inl err, svc'\<lparr>approvalFlowService := fs\<rparr>)
                | (Inr flow, fs) \<Rightarrow>
                    (Inr (expense', fid flow), svc'\<lparr>approvalFlowService := fs\<rparr>))))"

definition processExpenseApproval ::
  "ExpenseService \<Rightarrow> string \<Rightarrow> string \<Rightarrow> string \<Rightarrow> string \<Rightarrow> Action \<Rightarrow> string option \<Rightarrow> Date
     \<Rightarrow> (error + Expense) \<times> ExpenseService" where
  "processExpenseApproval svc expenseId' aId aName aRole act cmts now =
     (case map_of (expenses svc) expenseId' of
        None \<Rightarrow> (Inl ExpenseNotFound, svc)
      | Some expense \<Rightarrow>
          if estatus expense \<noteq> E_PENDING then (Inl NotPending, svc)
          else
            (case getFlowByExpenseId (approvalFlowService svc) expenseId' of
               None \<Rightarrow> (Inl NoFlowForExpense, svc)
             | Some flow \<Rightarrow>
                 (case processApproval (approvalFlowService svc) (fid flow) aId aName aRole act
                         cmts now of
                    (Inl err, fs) \<Rightarrow> (Inl err, svc\<lparr>approvalFlowService := fs\<rparr>)
                  | (Inr updatedFlow, fs) \<Rightarrow>
                      (let approvalRecord =
                         \<lparr>ar_approverId = aId, ar_approverName = aName,
                          approverLevel =
                            currentLevel updatedFlow
                              - (if act = A_APPROVED \<and> fstatus updatedFlow = F_APPROVED
                                 then 0 else 1),
                          ar_action = act, ar_timestamp = now, ar_comments = cmts\<rparr>;
                           pushed =
                             expense\<lparr>approvalHistory := approvalHistory expense @ [approvalRecord]\<rparr>;
                           expense' =
                             (if fstatus updatedFlow = F_APPROVED
                              then pushed\<lparr>estatus := E_APPROVED\<rparr>
                              else if fstatus updatedFlow = F_REJECTED
                              then pushed\<lparr>estatus := E_REJECTED\<rparr>
                              else pushed)
                       in
                         (Inr expense',
                          svc\<lparr>expenses := AList.update expenseId' expense' (expenses svc),
                              approvalFlowService := fs\<rparr>)))))"

definition getExpense :: "ExpenseService \<Rightarrow> string \<Rightarrow> Expense option" where
  "getExpense svc expenseId' = map_of (expenses svc) expenseId'"

definition cancelExpense ::
  "ExpenseService \<Rightarrow> string \<Rightarrow> string \<Rightarrow> (error + Expense) \<times> ExpenseService" where
  "cancelExpense svc expenseId' employeeId' =
     (case map_of (expenses svc) expenseId' of
        None \<Rightarrow> (Inl ExpenseNotFound, svc)
      | Some expense \<Rightarrow>
          if employeeId expense \<noteq> employeeId' then (Inl NotOwner, svc)
          else if estatus expense = E_APPROVED \<or> estatus expense = E_REJECTED
          then (Inl AlreadyFinal, svc)
          else
            (let expense' = expense\<lparr>estatus := E_CANCELLED\<rparr>
             in (Inr expense',
                 svc\<lparr>expenses := AList.update expenseId' expense' (expenses svc)\<rparr>)))"

section \<open>Reachable states and the flow invariant\<close>

text \<open>
  The states of a flow service: a new service over an engine built from any rule set, in a
  program with any role arrays, followed by any sequence of \<^verbatim>\<open>createApprovalFlow\<close> and
  \<^verbatim>\<open>processApproval\<close> calls (failed ones included), of \<^verbatim>\<open>addRule\<close> and \<^verbatim>\<open>updateRule\<close>
  calls on its engine (\<^verbatim>\<open>deactivateRule\<close> is an \<^verbatim>\<open>updateRule\<close>), whatever the sort does when
  the language leaves it open, and of writes to a role array by whoever holds it.
\<close>

inductive_set reachable :: "ApprovalFlowService set" where
  reach_new: "newApprovalFlowService (constructor impl rs) roles \<in> reachable"
| reach_create: "svc \<in> reachable \<Longrightarrow> snd (createApprovalFlow svc e now) \<in> reachable"
| reach_process:
    "svc \<in> reachable \<Longrightarrow> snd (processApproval svc k aId aName aRole act cmts now) \<in> reachable"
| reach_addRule: "svc \<in> reachable \<Longrightarrow> addRule impl svc r \<in> reachable"
| reach_updateRule: "svc \<in> reachable \<Longrightarrow> snd (updateRule impl svc k u) \<in> reachable"
| reach_write:
    "svc \<in> reachable \<Longrightarrow> svc\<lparr>roleArrays := (roleArrays svc)(a := xs)\<rparr> \<in> reachable"


text \<open>
  The invariant of a stored flow. The level pointer is 1-based, so the step at index \<open>i\<close>
  is before, at or after the current level as \<open>int i + 1\<close> is below, equal to or above
  \<open>currentLevel\<close>.
\<close>

definition levelsOk :: "ApprovalFlow \<Rightarrow> bool" where
  "levelsOk f \<longleftrightarrow>
     totalLevels f = int (length (steps f)) \<and> 1 \<le> currentLevel f \<and>
     (currentLevel f \<le> totalLevels f \<or> currentLevel f = 1)"

definition stepOk :: "ApprovalFlow \<Rightarrow> nat \<Rightarrow> bool" where
  "stepOk f i \<longleftrightarrow>
     distinct (map approverId (approvals (steps f ! i))) \<and>
     (int i + 1 < currentLevel f \<longrightarrow> sstatus (steps f ! i) = S_APPROVED) \<and>
     (currentLevel f < int i + 1 \<longrightarrow>
        sstatus (steps f ! i) = S_PENDING \<and> approvals (steps f ! i) = []) \<and>
     (int i + 1 = currentLevel f \<longrightarrow>
        (case fstatus f of
           F_PENDING \<Rightarrow> sstatus (steps f ! i) = S_PENDING
         | F_APPROVED \<Rightarrow> sstatus (steps f ! i) = S_APPROVED \<and> currentLevel f = totalLevels f
         | F_REJECTED \<Rightarrow> sstatus (steps f ! i) = S_REJECTED))"

definition flowInv :: "ApprovalFlow \<Rightarrow> bool" where
  "flowInv f \<longleftrightarrow>
     levelsOk f \<and> (\<forall>i<length (steps f). stepOk f i) \<and> (steps f = [] \<longrightarrow> fstatus f = F_PENDING)"

definition storeInv :: "ApprovalFlowService \<Rightarrow> bool" where
  "storeInv svc \<longleftrightarrow> (\<forall>k f. map_of (flows svc) k = Some f \<longrightarrow> flowInv f)"

section \<open>Example data\<close>

text \<open>
  The two rules and the expenses of the repository's tests of \<^verbatim>\<open>ApprovalFlowService\<close>, and a
  few rules of the same shape: a level that needs two managers, a rule without levels,
  unconditional rules of a given priority, and a rule whose condition asks whether the
  category is \<^verbatim>\<open>IN\<close> a number. Each array literal of role names of the rules has an address
  of its own in \<open>testRoles\<close>.
\<close>

definition testRoles :: "addr \<Rightarrow> string list" where
  "testRoles a =
     (if a = 0 then [''MANAGER''] else if a = 1 then [''MANAGER'']
      else if a = 2 then [''DIRECTOR''] else if a = 3 then [''MANAGER'']
      else if a = 4 then [''MANAGER''] else [])"

definition singleLevelRule :: ApprovalRule where
  "singleLevelRule =
     \<lparr>rid = Some ''rule-1'', rname = Some ''Single Level'',
      rdescription = Some ''Single approval'',
      conditions = Some [\<lparr>ctype = AMOUNT, operator = LESS_THAN, cvalue = NumV 100\<rparr>],
      approvalLevels =
        Some [\<lparr>l_level = 1, l_approverRoles = 0, l_requiredApprovers = 1,
               autoApprove = None, autoApproveThreshold = None\<rparr>],
      priority = Some 1, active = Some True\<rparr>"

definition twoLevelRule :: ApprovalRule where
  "twoLevelRule =
     \<lparr>rid = Some ''rule-2'', rname = Some ''Two Level'',
      rdescription = Some ''Two level approval'',
      conditions =
        Some [\<lparr>ctype = AMOUNT, operator = GREATER_THAN_OR_EQUAL, cvalue = NumV 100\<rparr>],
      approvalLevels =
        Some [\<lparr>l_level = 1, l_approverRoles = 1, l_requiredApprovers = 1,
               autoApprove = None, autoApproveThreshold = None\<rparr>,
              \<lparr>l_level = 2, l_approverRoles = 2, l_requiredApprovers = 1,
               autoApprove = None, autoApproveThreshold = None\<rparr>],
      priority = Some 2, active = Some True\<rparr>"

definition testRules :: "ApprovalRule list" where
  "testRules = [singleLevelRule, twoLevelRule]"

definition twoManagersRule :: ApprovalRule where
  "twoManagersRule =
     \<lparr>rid = Some ''rule-3'', rname = Some ''Two Managers'',
      rdescription = Some ''Two managers at one level'',
      conditions = Some [],
      approvalLevels =
        Some [\<lparr>l_level = 1, l_approverRoles = 3, l_requiredApprovers = 2,
               autoApprove = None, autoApproveThreshold = None\<rparr>],
      priority = Some 1, active = Some True\<rparr>"

definition noLevelsRule :: ApprovalRule where
  "noLevelsRule =
     \<lparr>rid = Some ''rule-4'', rname = Some ''No Levels'',
      rdescription = Some ''No approval level'',
      conditions = Some [], approvalLevels = Some [], priority = Some 1, active = Some True\<rparr>"



text \<open>The levels of the two-level rule.\<close>

definition twoLevels :: "ApprovalLevel list" where
  "twoLevels =
     [\<lparr>l_level = 1, l_approverRoles = 1, l_requiredApprovers = 1,
       autoApprove = None, autoApproveThreshold = None\<rparr>,
      \<lparr>l_level = 2, l_approverRoles = 2, l_requiredApprovers = 1,
       autoApprove = None, autoApproveThreshold = None\<rparr>]"

text \<open>
  A sort that leaves the array as it is where the language fixes no order, as a sort does
  that compares neighbours and finds \<^verbatim>\<open>NaN\<close>, which counts as 0, at each comparison.
\<close>

definition keepOrder :: "ApprovalRule list \<Rightarrow> ApprovalRule list" where
  "keepOrder rs = rs"


definition lunch :: Expense where
  "lunch =
     \<lparr>eid = ''exp-3'', employeeId = ''emp-1'', employeeName = ''John Doe'', amount = 50,
      currency = ''USD'', category = MEALS, description = ''Lunch'', date = 0,
      estatus = E_DRAFT, submittedAt = None, approvalHistory = [], attachments = None\<rparr>"

definition monitor :: Expense where
  "monitor =
     \<lparr>eid = ''exp-4'', employeeId = ''emp-1'', employeeName = ''John Doe'', amount = 500,
      currency = ''USD'', category = EQUIPMENT, description = ''Monitor'', date = 0,
      estatus = E_DRAFT, submittedAt = None, approvalHistory = [], attachments = None\<rparr>"

text \<open>
  The engines of the examples, as the constructor leaves them: every rule has a priority,
  so the sort is the stable one whatever the implementation (lemma \<open>constructor_examples\<close>).
\<close>

definition testEngine :: "ApprovalRule list" where
  "testEngine = [twoLevelRule, singleLevelRule]"


text \<open>Services in which one flow has been created at time 7.\<close>

definition monitorService :: ApprovalFlowService where
  "monitorService =
     snd (createApprovalFlow (newApprovalFlowService testEngine testRoles) monitor 7)"

definition twoManagersService :: ApprovalFlowService where
  "twoManagersService =
     snd (createApprovalFlow (newApprovalFlowService [twoManagersRule] testRoles) lunch 7)"

definition noLevelsService :: ApprovalFlowService where
  "noLevelsService =
     snd (createApprovalFlow (newApprovalFlowService [noLevelsRule] testRoles) lunch 7)"

text \<open>The same services after a first manager has approved at time 8.\<close>

definition afterFirstManager :: ApprovalFlowService where
  "afterFirstManager =
     snd (processApproval twoManagersService ''flow-exp-3-7'' ''mgr-1'' ''Manager One''
            ''MANAGER'' A_APPROVED None 8)"

definition monitorLevel2 :: ApprovalFlowService where
  "monitorLevel2 =
     snd (processApproval monitorService ''flow-exp-4-7'' ''mgr-1'' ''Manager One''
            ''MANAGER'' A_APPROVED None 8)"

text \<open>
  Expense services: one without any rule that holds a draft, and two in which an expense
  has been created at time 1 and submitted at time 2.
\<close>

definition draftService :: ExpenseService where
  "draftService =
     snd (createExpense (newExpenseService (newApprovalFlowService [] testRoles))
            ''emp-1'' ''John Doe'' 50 ''USD'' MEALS ''Lunch'' 0 None 1 ''abc'')"

definition pendingService :: ExpenseService where
  "pendingService =
     snd (submitExpense
            (snd (createExpense
                    (newExpenseService (newApprovalFlowService testEngine testRoles))
                    ''emp-1'' ''John Doe'' 500 ''USD'' EQUIPMENT ''Monitor'' 0 None 1 ''abc''))
            ''exp-1-abc'' 2)"

definition pendingTwoManagers :: ExpenseService where
  "pendingTwoManagers =
     snd (submitExpense
            (snd (createExpense
                    (newExpenseService (newApprovalFlowService [twoManagersRule] testRoles))
                    ''emp-1'' ''John Doe'' 50 ''USD'' MEALS ''Lunch'' 0 None 1 ''abc''))
            ''exp-1-abc'' 2)"

section \<open>Auxiliary lemmas\<close>

subsection \<open>The first match of a stably sorted list\<close>





subsection \<open>The invariant is kept by every write of a flow\<close>

lemma jsIndex_Some:
  "jsIndex xs i = Some x \<longleftrightarrow> 0 \<le> i \<and> nat i < length xs \<and> x = xs ! nat i"
  by (auto simp: jsIndex_def)

lemma inv_push:
  assumes "flowInv f" "fstatus f = F_PENDING"
    and "jsIndex (steps f) (currentLevel f - 1) = Some st"
    and "approverId a \<notin> approverId ` set (approvals st)"
    and "steps f' = (steps f)[nat (currentLevel f - 1) := st']"
    and "approvals st' = approvals st @ [a]" "sstatus st' = sstatus st"
    and "currentLevel f' = currentLevel f" "totalLevels f' = totalLevels f"
    and "fstatus f' = F_PENDING"
  shows "flowInv f'"
proof -
  from assms(3) have c: "1 \<le> currentLevel f" "nat (currentLevel f - 1) < length (steps f)"
    "st = steps f ! nat (currentLevel f - 1)"
    by (simp_all add: jsIndex_Some)
  have lv: "levelsOk f'"
    using assms(1,5,8,9) by (auto simp: flowInv_def levelsOk_def)
  have "stepOk f' i" if "i < length (steps f')" for i
  proof (cases "i = nat (currentLevel f - 1)")
    case True
    have "stepOk f i" using assms(1,5) that by (simp add: flowInv_def)
    then show ?thesis
      using True c assms(2,4,5,6,7,8,9,10) by (simp add: stepOk_def)
  next
    case False
    have "stepOk f i" using assms(1,5) that by (simp add: flowInv_def)
    then show ?thesis
      using False c assms(2,5,8,9,10) by (auto simp: stepOk_def)
  qed
  moreover have "steps f' = [] \<longrightarrow> fstatus f' = F_PENDING"
    using assms(10) by simp
  ultimately show ?thesis using lv by (simp add: flowInv_def)
qed

lemma inv_reject:
  assumes "flowInv f" "fstatus f = F_PENDING"
    and "jsIndex (steps f) (currentLevel f - 1) = Some st"
    and "approverId a \<notin> approverId ` set (approvals st)"
    and "steps f' = (steps f)[nat (currentLevel f - 1) := st']"
    and "approvals st' = approvals st @ [a]" "sstatus st' = S_REJECTED"
    and "currentLevel f' = currentLevel f" "totalLevels f' = totalLevels f"
    and "fstatus f' = F_REJECTED"
  shows "flowInv f'"
proof -
  from assms(3) have c: "1 \<le> currentLevel f" "nat (currentLevel f - 1) < length (steps f)"
    "st = steps f ! nat (currentLevel f - 1)"
    by (simp_all add: jsIndex_Some)
  have lv: "levelsOk f'"
    using assms(1,5,8,9) by (auto simp: flowInv_def levelsOk_def)
  have "stepOk f' i" if "i < length (steps f')" for i
  proof (cases "i = nat (currentLevel f - 1)")
    case True
    have "stepOk f i" using assms(1,5) that by (simp add: flowInv_def)
    then show ?thesis
      using True c assms(2,4,5,6,7,8,9,10) by (simp add: stepOk_def)
  next
    case False
    have "stepOk f i" using assms(1,5) that by (simp add: flowInv_def)
    then show ?thesis
      using False c assms(2,5,8,9,10) by (auto simp: stepOk_def)
  qed
  moreover have "steps f' \<noteq> []"
    using c assms(5) by auto
  ultimately show ?thesis using lv by (simp add: flowInv_def)
qed

lemma inv_final:
  assumes "flowInv f" "fstatus f = F_PENDING"
    and "jsIndex (steps f) (currentLevel f - 1) = Some st"
    and "approverId a \<notin> approverId ` set (approvals st)"
    and "\<not> currentLevel f < totalLevels f"
    and "steps f' = (steps f)[nat (currentLevel f - 1) := st']"
    and "approvals st' = approvals st @ [a]" "sstatus st' = S_APPROVED"
    and "currentLevel f' = currentLevel f" "totalLevels f' = totalLevels f"
    and "fstatus f' = F_APPROVED"
  shows "flowInv f'"
proof -
  from assms(3) have c: "1 \<le> currentLevel f" "nat (currentLevel f - 1) < length (steps f)"
    "st = steps f ! nat (currentLevel f - 1)"
    by (simp_all add: jsIndex_Some)
  have lv: "levelsOk f'"
    using assms(1,6,9,10) by (auto simp: flowInv_def levelsOk_def)
  have tot: "currentLevel f = totalLevels f"
    using assms(1,5) c by (auto simp: flowInv_def levelsOk_def)
  have "stepOk f' i" if "i < length (steps f')" for i
  proof (cases "i = nat (currentLevel f - 1)")
    case True
    have "stepOk f i" using assms(1,6) that by (simp add: flowInv_def)
    then show ?thesis
      using True c tot assms(2,4,6,7,8,9,10,11) by (simp add: stepOk_def)
  next
    case False
    have "stepOk f i" using assms(1,6) that by (simp add: flowInv_def)
    then show ?thesis
      using False c assms(2,6,9,10,11) by (auto simp: stepOk_def)
  qed
  moreover have "steps f' \<noteq> []"
    using c assms(6) by auto
  ultimately show ?thesis using lv by (simp add: flowInv_def)
qed

lemma inv_advance:
  assumes "flowInv f" "fstatus f = F_PENDING"
    and "jsIndex (steps f) (currentLevel f - 1) = Some st"
    and "approverId a \<notin> approverId ` set (approvals st)"
    and "currentLevel f < totalLevels f"
    and "steps f' = ((steps f)[nat (currentLevel f - 1) := st'])[nat (currentLevel f) := nx']"
    and "approvals st' = approvals st @ [a]" "sstatus st' = S_APPROVED"
    and "approvals nx' = approvals (steps f ! nat (currentLevel f))"
    and "sstatus nx' = sstatus (steps f ! nat (currentLevel f))"
    and "currentLevel f' = currentLevel f + 1" "totalLevels f' = totalLevels f"
    and "fstatus f' = F_PENDING"
  shows "flowInv f'"
proof -
  from assms(3) have c: "1 \<le> currentLevel f" "nat (currentLevel f - 1) < length (steps f)"
    "st = steps f ! nat (currentLevel f - 1)"
    by (simp_all add: jsIndex_Some)
  have n: "nat (currentLevel f) < length (steps f)"
    "nat (currentLevel f) \<noteq> nat (currentLevel f - 1)"
    using assms(1,5) c by (auto simp: flowInv_def levelsOk_def)
  have lv: "levelsOk f'"
    using assms(1,5,6,11,12) by (auto simp: flowInv_def levelsOk_def)
  have nxt: "stepOk f (nat (currentLevel f))"
    using assms(1) n by (simp add: flowInv_def)
  have "stepOk f' i" if "i < length (steps f')" for i
  proof -
    have old: "stepOk f i" using assms(1,6) that by (simp add: flowInv_def)
    consider "i = nat (currentLevel f - 1)" | "i = nat (currentLevel f)"
      | "i \<noteq> nat (currentLevel f - 1)" "i \<noteq> nat (currentLevel f)"
      by blast
    then show ?thesis
    proof cases
      case 1
      with old show ?thesis
        using c n assms(2,4,6,7,8,11,12,13) by (simp add: stepOk_def)
    next
      case 2
      with nxt show ?thesis
        using c n assms(2,6,9,10,11,12,13) by (simp add: stepOk_def)
    next
      case 3
      with old show ?thesis
        using c n assms(2,6,11,12,13) by (auto simp: stepOk_def)
    qed
  qed
  moreover have "steps f' \<noteq> []"
    using c assms(6) by auto
  ultimately show ?thesis using lv by (simp add: flowInv_def)
qed

subsection \<open>The outcomes of the two flow operations\<close>

lemma createApprovalFlow_cases:
  "createApprovalFlow svc e now = (res, svc') \<Longrightarrow>
     (\<exists>err. res = Inl err \<and> svc' = svc) \<or>
     (\<exists>rule levels.
        findMatchingRule (ruleEngine svc) e = Inr (Some rule) \<and>
        approvalLevels rule = Some levels \<and> res = Inr (newFlow e rule levels now) \<and>
        svc' = svc\<lparr>flows := AList.update (fid (newFlow e rule levels now))
                          (newFlow e rule levels now) (flows svc)\<rparr>)"
  by (auto simp: createApprovalFlow_def Let_def split: option.splits sum.splits)

lemma createApprovalFlow_match:
  "findMatchingRule (ruleEngine svc) e = Inr (Some rule) \<Longrightarrow> approvalLevels rule = Some levels \<Longrightarrow>
     createApprovalFlow svc e now =
       (Inr (newFlow e rule levels now),
        svc\<lparr>flows := AList.update (fid (newFlow e rule levels now))
                 (newFlow e rule levels now) (flows svc)\<rparr>)"
  by (simp add: createApprovalFlow_def Let_def)

lemma newFlow_fields [simp]:
  "fid (newFlow e rule levels now) = ''flow-'' @ eid e @ ''-'' @ decimal now"
  "expenseId (newFlow e rule levels now) = eid e"
  "ruleId (newFlow e rule levels now) = rid rule"
  "currentLevel (newFlow e rule levels now) = 1"
  "totalLevels (newFlow e rule levels now) = int (length levels)"
  "fstatus (newFlow e rule levels now) = F_PENDING"
  "steps (newFlow e rule levels now) = map (newStep now) (enumerate 0 levels)"
  "createdAt (newFlow e rule levels now) = now"
  "completedAt (newFlow e rule levels now) = None"
  by (simp_all add: newFlow_def)

lemma newStep_fields [simp]:
  "level (newStep now (i, lvl)) = l_level lvl"
  "approverRoles (newStep now (i, lvl)) = l_approverRoles lvl"
  "requiredApprovers (newStep now (i, lvl)) = l_requiredApprovers lvl"
  "approvals (newStep now (i, lvl)) = []"
  "sstatus (newStep now (i, lvl)) = S_PENDING"
  "startedAt (newStep now (i, lvl)) = (if i = 0 then Some now else None)"
  "s_completedAt (newStep now (i, lvl)) = None"
  by (simp_all add: newStep_def)

lemma newFlow_flowInv: "flowInv (newFlow e rule levels now)"
  by (auto simp: flowInv_def levelsOk_def stepOk_def nth_enumerate_eq)

lemma storeInv_update:
  "storeInv svc \<Longrightarrow> flowInv f \<Longrightarrow> storeInv (svc\<lparr>flows := AList.update k f (flows svc)\<rparr>)"
  by (simp add: storeInv_def update_conv')

lemma storeInv_flows: "flows svc' = flows svc \<Longrightarrow> storeInv svc' = storeInv svc"
  by (simp add: storeInv_def)

lemma createApprovalFlow_storeInv:
  assumes "storeInv svc"
  shows "storeInv (snd (createApprovalFlow svc e now))"
proof (cases "createApprovalFlow svc e now")
  case (Pair res svc')
  from createApprovalFlow_cases [OF Pair] assms show ?thesis
    unfolding Pair by (auto simp: storeInv_update newFlow_flowInv)
qed

lemma addRule_frame [simp]:
  "flows (addRule impl svc r) = flows svc"
  "roleArrays (addRule impl svc r) = roleArrays svc"
  by (simp_all add: addRule_def)

lemma updateRule_frame [simp]:
  "flows (snd (updateRule impl svc k u)) = flows svc"
  "roleArrays (snd (updateRule impl svc k u)) = roleArrays svc"
  by (simp_all add: updateRule_def split: option.splits)

lemma deactivateRule_frame [simp]:
  "flows (snd (deactivateRule impl svc k)) = flows svc"
  "roleArrays (snd (deactivateRule impl svc k)) = roleArrays svc"
  by (simp_all add: deactivateRule_def)

lemma processApproval_FlowNotFound:
  "map_of (flows svc) k = None \<Longrightarrow>
     processApproval svc k aId aName aRole act cmts now = (Inl FlowNotFound, svc)"
  by (simp add: processApproval_def)

lemma processApproval_FlowAlreadyResolved:
  "map_of (flows svc) k = Some flow \<Longrightarrow> fstatus flow \<noteq> F_PENDING \<Longrightarrow>
     processApproval svc k aId aName aRole act cmts now = (Inl FlowAlreadyResolved, svc)"
  by (simp add: processApproval_def)

lemma processApproval_InvalidLevel:
  "map_of (flows svc) k = Some flow \<Longrightarrow> fstatus flow = F_PENDING \<Longrightarrow>
   jsIndex (steps flow) (currentLevel flow - 1) = None \<Longrightarrow>
     processApproval svc k aId aName aRole act cmts now = (Inl InvalidLevel, svc)"
  by (simp add: processApproval_def)

lemma processApproval_UnauthorizedRole:
  "map_of (flows svc) k = Some flow \<Longrightarrow> fstatus flow = F_PENDING \<Longrightarrow>
   jsIndex (steps flow) (currentLevel flow - 1) = Some st \<Longrightarrow> aRole \<notin> set (roleArrays svc (approverRoles st)) \<Longrightarrow>
     processApproval svc k aId aName aRole act cmts now = (Inl UnauthorizedRole, svc)"
  by (simp add: processApproval_def)

lemma processApproval_DuplicateApproval:
  "map_of (flows svc) k = Some flow \<Longrightarrow> fstatus flow = F_PENDING \<Longrightarrow>
   jsIndex (steps flow) (currentLevel flow - 1) = Some st \<Longrightarrow> aRole \<in> set (roleArrays svc (approverRoles st)) \<Longrightarrow>
   aId \<in> approverId ` set (approvals st) \<Longrightarrow>
     processApproval svc k aId aName aRole act cmts now = (Inl DuplicateApproval, svc)"
  by (auto simp: processApproval_def find_None_iff)

lemma processApproval_rejected:
  assumes "map_of (flows svc) k = Some flow" "fstatus flow = F_PENDING"
    and "jsIndex (steps flow) (currentLevel flow - 1) = Some st" "aRole \<in> set (roleArrays svc (approverRoles st))"
    and "aId \<notin> approverId ` set (approvals st)"
    and "flow' = flow\<lparr>steps := (steps flow)[nat (currentLevel flow - 1) :=
             st\<lparr>approvals := approvals st @ [mkApproval aId aName aRole A_REJECTED cmts now],
                sstatus := S_REJECTED, s_completedAt := Some now\<rparr>],
           fstatus := F_REJECTED, completedAt := Some now\<rparr>"
  shows "processApproval svc k aId aName aRole A_REJECTED cmts now =
           (Inr flow', svc\<lparr>flows := AList.update k flow' (flows svc)\<rparr>)"
proof -
  have "find (\<lambda>a. approverId a = aId) (approvals st) = None"
    using assms(5) by (auto simp: find_None_iff)
  with assms show ?thesis
    by (simp add: processApproval_def Let_def mkApproval_def)
qed

lemma processApproval_partial:
  assumes "map_of (flows svc) k = Some flow" "fstatus flow = F_PENDING"
    and "jsIndex (steps flow) (currentLevel flow - 1) = Some st" "aRole \<in> set (roleArrays svc (approverRoles st))"
    and "aId \<notin> approverId ` set (approvals st)"
    and "approvedCount st + 1 < requiredApprovers st"
    and "flow' = flow\<lparr>steps := (steps flow)[nat (currentLevel flow - 1) :=
             st\<lparr>approvals := approvals st @ [mkApproval aId aName aRole A_APPROVED cmts now]\<rparr>]\<rparr>"
  shows "processApproval svc k aId aName aRole A_APPROVED cmts now =
           (Inr flow', svc\<lparr>flows := AList.update k flow' (flows svc)\<rparr>)"
proof -
  have "find (\<lambda>a. approverId a = aId) (approvals st) = None"
    using assms(5) by (auto simp: find_None_iff)
  with assms show ?thesis
    by (simp add: processApproval_def Let_def mkApproval_def approvedCount_def)
qed

lemma processApproval_final:
  assumes "map_of (flows svc) k = Some flow" "fstatus flow = F_PENDING"
    and "jsIndex (steps flow) (currentLevel flow - 1) = Some st" "aRole \<in> set (roleArrays svc (approverRoles st))"
    and "aId \<notin> approverId ` set (approvals st)"
    and "requiredApprovers st \<le> approvedCount st + 1"
    and "\<not> currentLevel flow < totalLevels flow"
    and "flow' = flow\<lparr>steps := (steps flow)[nat (currentLevel flow - 1) :=
             st\<lparr>approvals := approvals st @ [mkApproval aId aName aRole A_APPROVED cmts now],
                sstatus := S_APPROVED, s_completedAt := Some now\<rparr>],
           fstatus := F_APPROVED, completedAt := Some now\<rparr>"
  shows "processApproval svc k aId aName aRole A_APPROVED cmts now =
           (Inr flow', svc\<lparr>flows := AList.update k flow' (flows svc)\<rparr>)"
proof -
  have "find (\<lambda>a. approverId a = aId) (approvals st) = None"
    using assms(5) by (auto simp: find_None_iff)
  with assms show ?thesis
    by (simp add: processApproval_def Let_def mkApproval_def approvedCount_def)
qed

lemma processApproval_advance:
  assumes "map_of (flows svc) k = Some flow" "fstatus flow = F_PENDING"
    and "jsIndex (steps flow) (currentLevel flow - 1) = Some st" "aRole \<in> set (roleArrays svc (approverRoles st))"
    and "aId \<notin> approverId ` set (approvals st)"
    and "requiredApprovers st \<le> approvedCount st + 1"
    and "currentLevel flow < totalLevels flow"
    and "nat (currentLevel flow) < length (steps flow)"
    and "flow' = flow\<lparr>currentLevel := currentLevel flow + 1,
           steps := ((steps flow)[nat (currentLevel flow - 1) :=
             st\<lparr>approvals := approvals st @ [mkApproval aId aName aRole A_APPROVED cmts now],
                sstatus := S_APPROVED, s_completedAt := Some now\<rparr>])
               [nat (currentLevel flow) := (steps flow ! nat (currentLevel flow))\<lparr>startedAt := Some now\<rparr>]\<rparr>"
  shows "processApproval svc k aId aName aRole A_APPROVED cmts now =
           (Inr flow', svc\<lparr>flows := AList.update k flow' (flows svc)\<rparr>)"
proof -
  have "find (\<lambda>a. approverId a = aId) (approvals st) = None"
    using assms(5) by (auto simp: find_None_iff)
  moreover from assms(3) have "1 \<le> currentLevel flow" "nat (currentLevel flow - 1) < length (steps flow)"
    by (simp_all add: jsIndex_Some)
  moreover from this have "nat (currentLevel flow) \<noteq> nat (currentLevel flow - 1)" by simp
  moreover from assms(8) have "currentLevel flow < int (length (steps flow))" by linarith
  ultimately show ?thesis using assms
    by (simp add: processApproval_def Let_def mkApproval_def approvedCount_def jsIndex_def)
qed

lemma approverId_mkApproval [simp]:
  "approverId (mkApproval aId aName aRole act cmts now) = aId"
  "action (mkApproval aId aName aRole act cmts now) = act"
  by (simp_all add: mkApproval_def)

lemma processApproval_storeInv:
  assumes inv: "storeInv svc"
  shows "storeInv (snd (processApproval svc k aId aName aRole act cmts now))"
proof (cases "map_of (flows svc) k")
  case None
  then show ?thesis using inv by (simp add: processApproval_FlowNotFound)
next
  case (Some flow)
  then have fi: "flowInv flow" using inv by (simp add: storeInv_def)
  show ?thesis
  proof (cases "fstatus flow = F_PENDING")
    case False
    with Some show ?thesis using inv by (simp add: processApproval_FlowAlreadyResolved)
  next
    case pend: True
    show ?thesis
    proof (cases "jsIndex (steps flow) (currentLevel flow - 1)")
      case None
      with Some pend show ?thesis using inv by (simp add: processApproval_InvalidLevel)
    next
      case st: (Some st)
      show ?thesis
      proof (cases "aRole \<in> set (roleArrays svc (approverRoles st))")
        case False
        with Some pend st show ?thesis using inv by (simp add: processApproval_UnauthorizedRole)
      next
        case role: True
        show ?thesis
        proof (cases "aId \<in> approverId ` set (approvals st)")
          case True
          with Some pend st role show ?thesis
            using inv by (simp add: processApproval_DuplicateApproval)
        next
          case fresh: False
          show ?thesis
          proof (cases act)
            case A_REJECTED
            note r = processApproval_rejected [OF Some pend st role fresh refl]
            have "flowInv (flow\<lparr>steps := (steps flow)[nat (currentLevel flow - 1) :=
                     st\<lparr>approvals := approvals st @ [mkApproval aId aName aRole A_REJECTED cmts now],
                        sstatus := S_REJECTED, s_completedAt := Some now\<rparr>],
                   fstatus := F_REJECTED, completedAt := Some now\<rparr>)"
              by (rule inv_reject [OF fi pend st, where a = "mkApproval aId aName aRole A_REJECTED cmts now"
                    and st' = "st\<lparr>approvals := approvals st @ [mkApproval aId aName aRole A_REJECTED cmts now],
                        sstatus := S_REJECTED, s_completedAt := Some now\<rparr>"])
                 (use fresh pend in simp_all)
            with inv show ?thesis
              unfolding A_REJECTED r by (simp add: storeInv_update)
          next
            case A_APPROVED
            show ?thesis
            proof (cases "approvedCount st + 1 < requiredApprovers st")
              case True
              note r = processApproval_partial [OF Some pend st role fresh True refl]
              have "flowInv (flow\<lparr>steps := (steps flow)[nat (currentLevel flow - 1) :=
                       st\<lparr>approvals := approvals st @ [mkApproval aId aName aRole A_APPROVED cmts now]\<rparr>]\<rparr>)"
                by (rule inv_push [OF fi pend st, where a = "mkApproval aId aName aRole A_APPROVED cmts now"
                      and st' = "st\<lparr>approvals := approvals st @ [mkApproval aId aName aRole A_APPROVED cmts now]\<rparr>"])
                   (use fresh pend in simp_all)
              with inv show ?thesis
                unfolding A_APPROVED r by (simp add: storeInv_update)
            next
              case False
              then have enough: "requiredApprovers st \<le> approvedCount st + 1" by simp
              show ?thesis
              proof (cases "currentLevel flow < totalLevels flow")
                case True
                have nx: "nat (currentLevel flow) < length (steps flow)"
                  using fi True by (auto simp: flowInv_def levelsOk_def)
                note r = processApproval_advance [OF Some pend st role fresh enough True nx refl]
                have "flowInv (flow\<lparr>currentLevel := currentLevel flow + 1,
                       steps := ((steps flow)[nat (currentLevel flow - 1) :=
                         st\<lparr>approvals := approvals st @ [mkApproval aId aName aRole A_APPROVED cmts now],
                            sstatus := S_APPROVED, s_completedAt := Some now\<rparr>])
                         [nat (currentLevel flow) :=
                            (steps flow ! nat (currentLevel flow))\<lparr>startedAt := Some now\<rparr>]\<rparr>)"
                  by (rule inv_advance [OF fi pend st _ True,
                        where a = "mkApproval aId aName aRole A_APPROVED cmts now"
                        and st' = "st\<lparr>approvals := approvals st @ [mkApproval aId aName aRole A_APPROVED cmts now],
                            sstatus := S_APPROVED, s_completedAt := Some now\<rparr>"
                        and nx' = "(steps flow ! nat (currentLevel flow))\<lparr>startedAt := Some now\<rparr>"])
                     (use fresh pend in simp_all)
                with inv show ?thesis
                  unfolding A_APPROVED r by (simp add: storeInv_update)
              next
                case False
                note r = processApproval_final [OF Some pend st role fresh enough False refl]
                have "flowInv (flow\<lparr>steps := (steps flow)[nat (currentLevel flow - 1) :=
                         st\<lparr>approvals := approvals st @ [mkApproval aId aName aRole A_APPROVED cmts now],
                            sstatus := S_APPROVED, s_completedAt := Some now\<rparr>],
                       fstatus := F_APPROVED, completedAt := Some now\<rparr>)"
                  by (rule inv_final [OF fi pend st _ False,
                        where a = "mkApproval aId aName aRole A_APPROVED cmts now"
                        and st' = "st\<lparr>approvals := approvals st @ [mkApproval aId aName aRole A_APPROVED cmts now],
                            sstatus := S_APPROVED, s_completedAt := Some now\<rparr>"])
                     (use fresh pend in simp_all)
                with inv show ?thesis
                  unfolding A_APPROVED r by (simp add: storeInv_update)
              qed
            qed
          qed
        qed
      qed
    qed
  qed
qed

lemma reachable_storeInv: "svc \<in> reachable \<Longrightarrow> storeInv svc"
proof (induction rule: reachable.induct)
  case (reach_new impl rs roles)
  show ?case by (simp add: storeInv_def newApprovalFlowService_def)
next
  case (reach_create svc e now)
  then show ?case by (simp add: createApprovalFlow_storeInv)
next
  case (reach_process svc k aId aName aRole act cmts now)
  then show ?case by (simp add: processApproval_storeInv)
next
  case (reach_addRule svc impl r)
  then show ?case by (simp add: storeInv_flows [of "addRule impl svc r" svc])
next
  case (reach_updateRule svc impl k u)
  then show ?case by (simp add: storeInv_flows [of "snd (updateRule impl svc k u)" svc])
next
  case (reach_write svc a xs)
  then show ?case by (simp add: storeInv_def)
qed

subsection \<open>Consequences of the invariant\<close>

lemma reachable_flowInv:
  "svc \<in> reachable \<Longrightarrow> getFlow svc k = Some f \<Longrightarrow> flowInv f"
  using reachable_storeInv by (auto simp: storeInv_def getFlow_def)



lemma distinct_map_filter_one:
  "distinct (map f xs) \<Longrightarrow> v \<in> f ` set xs \<Longrightarrow> length (filter (\<lambda>a. f a = v) xs) = 1"
proof (induction xs)
  case Nil
  then show ?case by simp
next
  case (Cons x xs)
  show ?case
  proof (cases "f x = v")
    case True
    with Cons.prems have "v \<notin> f ` set xs" by auto
    then have "filter (\<lambda>a. f a = v) xs = []"
      by (auto simp: filter_empty_conv)
    with True show ?thesis by simp
  next
    case False
    with Cons show ?thesis by auto
  qed
qed

lemma steps_copy_levels:
  "map level (map (newStep now) (enumerate n ls)) = map l_level ls"
  "map approverRoles (map (newStep now) (enumerate n ls)) = map l_approverRoles ls"
  "map requiredApprovers (map (newStep now) (enumerate n ls)) = map l_requiredApprovers ls"
  by (induction ls arbitrary: n) simp_all

subsection \<open>The scan of the rule array\<close>








subsection \<open>Rule edits write to the rule array only\<close>

lemma ruleEdit_frame [simp]:
  "flows (ruleEdit impl svc ed) = flows svc"
  "roleArrays (ruleEdit impl svc ed) = roleArrays svc"
  by (cases ed; simp)+

lemma ruleEdits_frame:
  "flows (ruleEdits impl svc edits) = flows svc \<and>
   roleArrays (ruleEdits impl svc edits) = roleArrays svc"
  unfolding ruleEdits_def by (induction edits arbitrary: svc) simp_all

subsection \<open>Sequences of calls, and the example services\<close>

lemma processApprovals_all_fail:
  assumes "\<And>aId aName aRole act cmts now.
             processApproval svc k aId aName aRole act cmts now = (Inl err, svc)"
  shows "processApprovals svc k calls = (map (\<lambda>_. Inl err) calls, svc)"
  by (induction calls) (auto simp: assms)

lemma map_of_update_same: "map_of (AList.update k v al) k = Some v"
  by (simp add: update_conv')

lemma decimal_7 [simp]: "decimal 7 = ''7''"
  by (simp add: decimal.simps)

lemma constructor_examples:
  "constructor impl testRules = testEngine"
  "constructor impl [twoManagersRule] = [twoManagersRule]"
  "constructor impl [noLevelsRule] = [noLevelsRule]"
  "constructor impl [] = []"
  by (simp_all add: constructor_def sortByPriority_def testRules_def testEngine_def
        hasPriority_def priorityOf_def singleLevelRule_def twoLevelRule_def)

lemmas rule_eval =
  findMatchingRule_def evaluateRule_def thresholdOf_def lessThanJS_def greaterThanJS_def
  lessEqualJS_def greaterEqualJS_def

lemma testRules_monitor: "findMatchingRule testEngine monitor = Inr (Some twoLevelRule)"
  by (simp add: rule_eval testEngine_def singleLevelRule_def twoLevelRule_def monitor_def)

lemma monitorService_flows:
  "flows monitorService = [(''flow-exp-4-7'', newFlow monitor twoLevelRule twoLevels 7)]"
proof -
  have "eid monitor = ''exp-4''" by (simp add: monitor_def)
  moreover have "approvalLevels twoLevelRule = Some twoLevels"
    by (simp add: twoLevelRule_def twoLevels_def)
  ultimately show ?thesis
    by (simp add: monitorService_def createApprovalFlow_def testRules_monitor
          newApprovalFlowService_def Let_def)
qed

lemma monitorService_frame:
  "roleArrays monitorService = testRoles" "ruleEngine monitorService = testEngine"
  by (simp_all add: monitorService_def createApprovalFlow_def testRules_monitor
        newApprovalFlowService_def Let_def twoLevelRule_def)

lemma testEngine_reachable: "newApprovalFlowService testEngine testRoles \<in> reachable"
  using reach_new [of "\<lambda>xs. xs" testRules testRoles] by (simp add: constructor_examples)

lemma twoManagers_reachable: "newApprovalFlowService [twoManagersRule] testRoles \<in> reachable"
  using reach_new [of "\<lambda>xs. xs" "[twoManagersRule]" testRoles]
  by (simp add: constructor_examples)

lemma monitorService_reachable: "monitorService \<in> reachable"
  unfolding monitorService_def by (intro reachable.intros testEngine_reachable)

lemma monitor_first_step:
  "jsIndex (steps (newFlow monitor twoLevelRule twoLevels 7))
      (currentLevel (newFlow monitor twoLevelRule twoLevels 7) - 1)
     = Some \<lparr>level = 1, approverRoles = 1, requiredApprovers = 1, approvals = [],
          sstatus = S_PENDING, startedAt = Some 7, s_completedAt = None\<rparr>"
  by (simp add: jsIndex_def twoLevels_def newStep_def)

lemmas flow_eval =
  processApproval_def createApprovalFlow_def newApprovalFlowService_def rule_eval
  newFlow_def newStep_def
  mkApproval_def approvedCount_def jsIndex_def getFlow_def Let_def
  testEngine_def testRoles_def singleLevelRule_def twoLevelRule_def twoManagersRule_def
  noLevelsRule_def lunch_def monitor_def

lemmas expense_eval =
  createExpense_def submitExpense_def processExpenseApproval_def newExpenseService_def
  getExpense_def getFlowByExpenseId_def decimal.simps

lemma afterFirstManager_flows:
  "flows afterFirstManager =
     [(''flow-exp-3-7'',
       \<lparr>fid = ''flow-exp-3-7'', expenseId = ''exp-3'', ruleId = Some ''rule-3'',
        currentLevel = 1, totalLevels = 1, fstatus = F_PENDING,
        steps = [\<lparr>level = 1, approverRoles = 3, requiredApprovers = 2,
                  approvals = [mkApproval ''mgr-1'' ''Manager One'' ''MANAGER'' A_APPROVED None 8],
                  sstatus = S_PENDING, startedAt = Some 7, s_completedAt = None\<rparr>],
        createdAt = 7, completedAt = None\<rparr>)]"
  by (simp add: afterFirstManager_def twoManagersService_def flow_eval)

lemma afterFirstManager_roles: "roleArrays afterFirstManager = testRoles"
  by (simp add: afterFirstManager_def twoManagersService_def flow_eval)

lemma afterFirstManager_reachable: "afterFirstManager \<in> reachable"
  unfolding afterFirstManager_def twoManagersService_def
  by (intro reachable.intros twoManagers_reachable)

lemma noLevelsService_flows:
  "flows noLevelsService = [(''flow-exp-3-7'', newFlow lunch noLevelsRule [] 7)]"
  by (simp add: noLevelsService_def flow_eval)

lemma monitorLevel2_flows:
  "flows monitorLevel2 =
     [(''flow-exp-4-7'',
       \<lparr>fid = ''flow-exp-4-7'', expenseId = ''exp-4'', ruleId = Some ''rule-2'',
        currentLevel = 2, totalLevels = 2, fstatus = F_PENDING,
        steps = [\<lparr>level = 1, approverRoles = 1, requiredApprovers = 1,
                  approvals = [mkApproval ''mgr-1'' ''Manager One'' ''MANAGER'' A_APPROVED None 8],
                  sstatus = S_APPROVED, startedAt = Some 7, s_completedAt = Some 8\<rparr>,
                 \<lparr>level = 2, approverRoles = 2, requiredApprovers = 1,
                  approvals = [], sstatus = S_PENDING, startedAt = Some 8,
                  s_completedAt = None\<rparr>],
        createdAt = 7, completedAt = None\<rparr>)]"
  by (simp add: monitorLevel2_def monitorService_def flow_eval)

lemma monitorLevel2_roles: "roleArrays monitorLevel2 = testRoles"
  by (simp add: monitorLevel2_def monitorService_def flow_eval)

lemma monitorLevel2_reachable: "monitorLevel2 \<in> reachable"
  unfolding monitorLevel2_def monitorService_def
  by (intro reachable.intros testEngine_reachable)

subsection \<open>What the casts let through\<close>

text \<open>
  A threshold that is a string is converted by the comparisons and never equal under
  \<^verbatim>\<open>===\<close>, an empty array is 0, \<^verbatim>\<open>IN\<close> on a string is the substring test, and
  on a number it throws.
\<close>

lemmas toNumber_eval =
  toNumber_def trim_def strWhiteSpace_def dropLeading.simps nonDecimalIntegerLiteral_def
  strUnsignedDecimalLiteral_def exponentPart_def digits_def digitOf_def isDecimalDigit_def
  scale_def negateJS_def Let_def

lemma coercion_examples:
  "evaluateAmountCondition \<lparr>ctype = AMOUNT, operator = LESS_THAN, cvalue = StrV ''100''\<rparr> 50"
  "\<not> evaluateAmountCondition \<lparr>ctype = AMOUNT, operator = EQUALS, cvalue = StrV ''50''\<rparr> 50"
  "\<not> evaluateAmountCondition \<lparr>ctype = AMOUNT, operator = LESS_THAN, cvalue = StrV ''abc''\<rparr> 50"
  "evaluateAmountCondition \<lparr>ctype = AMOUNT, operator = GREATER_THAN, cvalue = ListV []\<rparr> 50"
  "evaluateCategoryCondition \<lparr>ctype = CATEGORY, operator = IN, cvalue = StrV ''MEALS,TRAVEL''\<rparr>
     MEALS = Inr True"
  "evaluateCategoryCondition \<lparr>ctype = CATEGORY, operator = IN, cvalue = StrV ''MEAL''\<rparr>
     MEALS = Inr False"
  "evaluateCategoryCondition \<lparr>ctype = CATEGORY, operator = IN, cvalue = NumV 1\<rparr>
     MEALS = Inl TypeError"
  by (simp_all add: thresholdOf_def lessThanJS_def greaterThanJS_def toNumber_eval)

text \<open>
  An update whose key \<^verbatim>\<open>active\<close> is present and \<^verbatim>\<open>undefined\<close> takes the rule out of
  the scan.
\<close>

lemma undefined_active_deactivates:
  "map active (ruleEngine (snd (updateRule keepOrder monitorService ''rule-2''
      (noUpdates\<lparr>u_active := Present None\<rparr>)))) = [None, Some True] \<and>
   findMatchingRule (ruleEngine (snd (updateRule keepOrder monitorService ''rule-2''
      (noUpdates\<lparr>u_active := Present None\<rparr>)))) monitor = Inr None"
  by (simp add: monitorService_frame testEngine_def updateRule_def mergeRule_def noUpdates_def
        sortByPriority_def hasPriority_def priorityOf_def singleLevelRule_def twoLevelRule_def
        rule_eval monitor_def)


text \<open>
  The role arrays are shared between the levels of a rule and the steps of the flows
  built from it: a write to the array of the first level of the two-level rule changes
  what the first step of the flow accepts.
\<close>

lemma shared_role_array:
  "map l_approverRoles twoLevels = [1, 2] \<and>
   map approverRoles (steps (newFlow monitor twoLevelRule twoLevels 7)) = [1, 2] \<and>
   fst (processApproval monitorService ''flow-exp-4-7'' ''mgr-1'' ''Manager One'' ''MANAGER''
          A_APPROVED None 8) \<noteq> Inl UnauthorizedRole \<and>
   fst (processApproval (monitorService\<lparr>roleArrays := (roleArrays monitorService)(1 := [''DIRECTOR''])\<rparr>)
          ''flow-exp-4-7'' ''mgr-1'' ''Manager One'' ''MANAGER'' A_APPROVED None 8)
     = Inl UnauthorizedRole"
  by (simp add: monitorService_flows monitorService_frame testRoles_def twoLevels_def
        processApproval_def jsIndex_def newStep_def Let_def mkApproval_def approvedCount_def)

section \<open>The rule engine\<close>




section \<open>The approval flow\<close>



text \<open>
  Claim C5. On a pending flow, \<^verbatim>\<open>processApproval\<close> with action \<^verbatim>\<open>REJECTED\<close> by an
  approver whose role the current step accepts and who has not acted on it appends the
  action to the step, sets the status of the step and of the flow to rejected with their
  completion timestamps, and stores the flow; afterwards every sequence of further
  \<^verbatim>\<open>processApproval\<close> calls on that flow fails call by call with
  \<open>FlowAlreadyResolved\<close> and leaves the stored state as it was.
\<close>

theorem rejection_is_final:
  assumes "getFlow svc k = Some flow" and "fstatus flow = F_PENDING"
    and "jsIndex (steps flow) (currentLevel flow - 1) = Some st"
    and "aRole \<in> set (roleArrays svc (approverRoles st))"
    and "aId \<notin> approverId ` set (approvals st)"
  shows "\<exists>flow' st' svc'.
           processApproval svc k aId aName aRole A_REJECTED cmts now = (Inr flow', svc') \<and>
           svc' = svc\<lparr>flows := AList.update k flow' (flows svc)\<rparr> \<and>
           getFlow svc' k = Some flow' \<and>
           fstatus flow' = F_REJECTED \<and> completedAt flow' = Some now \<and>
           currentLevel flow' = currentLevel flow \<and>
           jsIndex (steps flow') (currentLevel flow' - 1) = Some st' \<and>
           sstatus st' = S_REJECTED \<and> s_completedAt st' = Some now \<and>
           approvals st' = approvals st @ [mkApproval aId aName aRole A_REJECTED cmts now] \<and>
           (\<forall>calls. processApprovals svc' k calls =
                      (map (\<lambda>_. Inl FlowAlreadyResolved) calls, svc'))"
proof -
  define st' where "st' = st\<lparr>approvals := approvals st @ [mkApproval aId aName aRole A_REJECTED cmts now],
      sstatus := S_REJECTED, s_completedAt := Some now\<rparr>"
  define flow' where "flow' = flow\<lparr>steps := (steps flow)[nat (currentLevel flow - 1) := st'],
      fstatus := F_REJECTED, completedAt := Some now\<rparr>"
  define svc' where "svc' = svc\<lparr>flows := AList.update k flow' (flows svc)\<rparr>"
  from assms(1) have m: "map_of (flows svc) k = Some flow" by (simp add: getFlow_def)
  have r: "processApproval svc k aId aName aRole A_REJECTED cmts now = (Inr flow', svc')"
    unfolding svc'_def
    by (rule processApproval_rejected [OF m assms(2,3,4,5)]) (simp add: flow'_def st'_def)
  have g: "map_of (flows svc') k = Some flow'"
    by (simp add: svc'_def map_of_update_same)
  have idx: "jsIndex (steps flow') (currentLevel flow' - 1) = Some st'"
    using assms(3) by (simp add: flow'_def jsIndex_Some)
  have "processApproval svc' k a n ro ac c t = (Inl FlowAlreadyResolved, svc')" for a n ro ac c t
    by (rule processApproval_FlowAlreadyResolved [OF g]) (simp add: flow'_def)
  then have later: "processApprovals svc' k calls = (map (\<lambda>_. Inl FlowAlreadyResolved) calls, svc')"
    for calls by (rule processApprovals_all_fail)
  from r g idx later show ?thesis
    by (intro exI [of _ flow'] exI [of _ st'] exI [of _ svc'])
       (simp add: svc'_def getFlow_def, simp add: flow'_def st'_def)
qed

theorem rejection_is_final_witness:
  "fstatus (the (getFlow (snd (processApproval monitorService ''flow-exp-4-7'' ''mgr-1''
      ''Manager One'' ''MANAGER'' A_REJECTED (Some ''Not in budget'') 9)) ''flow-exp-4-7''))
     = F_REJECTED \<and>
   fst (processApprovals (snd (processApproval monitorService ''flow-exp-4-7'' ''mgr-1''
      ''Manager One'' ''MANAGER'' A_REJECTED (Some ''Not in budget'') 9)) ''flow-exp-4-7''
      [(''dir-1'', ''Director One'', ''DIRECTOR'', A_APPROVED, None, 10)])
     = [Inl FlowAlreadyResolved]"
proof -
  have h1: "getFlow monitorService ''flow-exp-4-7'' = Some (newFlow monitor twoLevelRule twoLevels 7)"
    by (simp add: getFlow_def monitorService_flows)
  have h2: "fstatus (newFlow monitor twoLevelRule twoLevels 7) = F_PENDING" by simp
  let ?st = "\<lparr>level = 1, approverRoles = 1, requiredApprovers = 1, approvals = [],
      sstatus = S_PENDING, startedAt = Some 7, s_completedAt = None\<rparr>"
  have h4: "''MANAGER'' \<in> set (roleArrays monitorService (approverRoles ?st))"
    by (simp add: monitorService_frame testRoles_def)
  have h5: "''mgr-1'' \<notin> approverId ` set (approvals ?st)" by simp
  from rejection_is_final [OF h1 h2 monitor_first_step h4 h5,
      of "''Manager One''" "Some ''Not in budget''" 9]
  obtain flow' svc' where
    p: "processApproval monitorService ''flow-exp-4-7'' ''mgr-1'' ''Manager One'' ''MANAGER''
          A_REJECTED (Some ''Not in budget'') 9 = (Inr flow', svc')"
    and g: "getFlow svc' ''flow-exp-4-7'' = Some flow'"
    and f: "fstatus flow' = F_REJECTED"
    and l: "\<forall>calls. processApprovals svc' ''flow-exp-4-7'' calls =
              (map (\<lambda>_. Inl FlowAlreadyResolved) calls, svc')"
    by blast
  let ?cs = "[(''dir-1'', ''Director One'', ''DIRECTOR'', A_APPROVED, None, 10)] :: approvalCall list"
  from l have "processApprovals svc' ''flow-exp-4-7'' ?cs
      = (map (\<lambda>_. Inl FlowAlreadyResolved) ?cs, svc')"
    by (rule spec)
  with p g f show ?thesis by simp
qed

text \<open>
  Claim C6, as amended. In a reachable service, once an approver has recorded an action on
  the current step of a flow, every further \<^verbatim>\<open>processApproval\<close> call with the same approver
  id on that flow fails and leaves the state as it was: with \<open>FlowAlreadyResolved\<close> when
  the flow is no longer pending, with \<open>UnauthorizedRole\<close> when it is pending and the role
  given is not accepted by the step, and with \<open>DuplicateApproval\<close> otherwise. The step
  holds exactly one action of that approver.
\<close>

theorem repeated_approver_fails:
  assumes "svc \<in> reachable" and "getFlow svc k = Some flow"
    and "jsIndex (steps flow) (currentLevel flow - 1) = Some st"
    and "aId \<in> approverId ` set (approvals st)"
  shows "processApproval svc k aId aName aRole act cmts now =
           (Inl (if fstatus flow \<noteq> F_PENDING then FlowAlreadyResolved
                 else if aRole \<notin> set (roleArrays svc (approverRoles st)) then UnauthorizedRole
                 else DuplicateApproval), svc) \<and>
         length (filter (\<lambda>a. approverId a = aId) (approvals st)) = 1"
proof -
  from assms(2) have m: "map_of (flows svc) k = Some flow" by (simp add: getFlow_def)
  have "processApproval svc k aId aName aRole act cmts now =
           (Inl (if fstatus flow \<noteq> F_PENDING then FlowAlreadyResolved
                 else if aRole \<notin> set (roleArrays svc (approverRoles st)) then UnauthorizedRole
                 else DuplicateApproval), svc)"
    using m assms(3,4)
    by (simp add: processApproval_FlowAlreadyResolved processApproval_UnauthorizedRole
          processApproval_DuplicateApproval)
  moreover have "length (filter (\<lambda>a. approverId a = aId) (approvals st)) = 1"
  proof -
    from assms(1,2) have fi: "flowInv flow" by (rule reachable_flowInv)
    from assms(3) have c: "nat (currentLevel flow - 1) < length (steps flow)"
      "st = steps flow ! nat (currentLevel flow - 1)"
      by (simp_all add: jsIndex_Some)
    with fi have "stepOk flow (nat (currentLevel flow - 1))" by (simp add: flowInv_def)
    with c have "distinct (map approverId (approvals st))" by (simp add: stepOk_def)
    then show ?thesis using assms(4) by (rule distinct_map_filter_one)
  qed
  ultimately show ?thesis by simp
qed

theorem repeated_approver_fails_witness:
  "processApproval afterFirstManager ''flow-exp-3-7'' ''mgr-1'' ''Manager One'' ''MANAGER''
     A_APPROVED None 9 = (Inl DuplicateApproval, afterFirstManager)"
proof -
  let ?st = "\<lparr>level = 1, approverRoles = 3, requiredApprovers = 2,
                  approvals = [mkApproval ''mgr-1'' ''Manager One'' ''MANAGER'' A_APPROVED None 8],
                  sstatus = S_PENDING, startedAt = Some 7, s_completedAt = None\<rparr>"
  let ?f = "\<lparr>fid = ''flow-exp-3-7'', expenseId = ''exp-3'', ruleId = Some ''rule-3'', currentLevel = 1,
        totalLevels = 1, fstatus = F_PENDING, steps = [?st], createdAt = 7, completedAt = None\<rparr>"
  have h2: "getFlow afterFirstManager ''flow-exp-3-7'' = Some ?f"
    by (simp add: getFlow_def afterFirstManager_flows)
  have h3: "jsIndex (steps ?f) (currentLevel ?f - 1) = Some ?st"
    by (simp add: jsIndex_def)
  have h4: "''mgr-1'' \<in> approverId ` set (approvals ?st)" by simp
  from repeated_approver_fails [OF afterFirstManager_reachable h2 h3 h4,
      of "''Manager One''" "''MANAGER''" A_APPROVED None 9]
  show ?thesis by (simp add: afterFirstManager_roles testRoles_def)
qed

text \<open>
  The claim as stated fails when the approver comes back under another role: the flow is
  pending at level 1, the first manager has approved on that step, and a second call with
  the same approver id and the role \<^verbatim>\<open>DIRECTOR\<close> fails with \<open>UnauthorizedRole\<close>, since
  the role is checked before the duplicate.
\<close>

theorem repeated_approver_other_role_counterexample:
  "map_option fstatus (getFlow afterFirstManager ''flow-exp-3-7'') = Some F_PENDING \<and>
   map_option currentLevel (getFlow afterFirstManager ''flow-exp-3-7'') = Some 1 \<and>
   map_option (\<lambda>f. map (\<lambda>st. map approverId (approvals st)) (steps f))
      (getFlow afterFirstManager ''flow-exp-3-7'') = Some [[''mgr-1'']] \<and>
   processApproval afterFirstManager ''flow-exp-3-7'' ''mgr-1'' ''Manager One'' ''DIRECTOR''
     A_APPROVED None 9 = (Inl UnauthorizedRole, afterFirstManager)"
  by (simp add: getFlow_def afterFirstManager_flows afterFirstManager_roles testRoles_def
        processApproval_def jsIndex_def)

text \<open>
  Claim C7, as amended. In a reachable service, a stored flow with at least one step is
  approved iff every step is approved, rejected iff some step is rejected, and pending
  otherwise; a stored flow without steps (built from a rule whose list of approval levels
  is empty) is pending.
\<close>

theorem flow_status_reflects_steps:
  assumes "svc \<in> reachable" and "getFlow svc k = Some f"
  shows "(steps f \<noteq> [] \<longrightarrow>
            (fstatus f = F_APPROVED \<longleftrightarrow> (\<forall>st\<in>set (steps f). sstatus st = S_APPROVED)) \<and>
            (fstatus f = F_REJECTED \<longleftrightarrow> (\<exists>st\<in>set (steps f). sstatus st = S_REJECTED)) \<and>
            (fstatus f = F_PENDING \<longleftrightarrow>
               \<not> (\<forall>st\<in>set (steps f). sstatus st = S_APPROVED) \<and>
               \<not> (\<exists>st\<in>set (steps f). sstatus st = S_REJECTED))) \<and>
         (steps f = [] \<longrightarrow> fstatus f = F_PENDING)"
proof -
  from assms have fi: "flowInv f" by (rule reachable_flowInv)
  then have empty: "steps f = [] \<longrightarrow> fstatus f = F_PENDING" by (simp add: flowInv_def)
  have main: "(fstatus f = F_APPROVED \<longleftrightarrow> (\<forall>st\<in>set (steps f). sstatus st = S_APPROVED)) \<and>
            (fstatus f = F_REJECTED \<longleftrightarrow> (\<exists>st\<in>set (steps f). sstatus st = S_REJECTED))"
    if ne: "steps f \<noteq> []"
  proof -
    let ?c = "nat (currentLevel f - 1)"
    from fi ne have lv: "1 \<le> currentLevel f" "currentLevel f \<le> int (length (steps f))"
      "totalLevels f = int (length (steps f))"
      by (auto simp: flowInv_def levelsOk_def Suc_le_eq)
    then have c: "?c < length (steps f)" "int ?c + 1 = currentLevel f" by auto
    from fi have all: "\<And>i. i < length (steps f) \<Longrightarrow> stepOk f i" by (simp add: flowInv_def)
    have cur: "stepOk f ?c" using all c by simp
    have before: "sstatus (steps f ! i) = S_APPROVED" if "i < ?c" for i
    proof -
      from that c have "i < length (steps f)" "int i + 1 < currentLevel f" by auto
      with all [of i] show ?thesis by (simp add: stepOk_def)
    qed
    have after: "sstatus (steps f ! i) = S_PENDING" if "?c < i" "i < length (steps f)" for i
    proof -
      from that c have "currentLevel f < int i + 1" by auto
      with all [of i] that show ?thesis by (simp add: stepOk_def)
    qed
    show ?thesis
    proof (cases "fstatus f")
      case F_PENDING
      with cur c have p: "sstatus (steps f ! ?c) = S_PENDING" by (simp add: stepOk_def)
      have "sstatus (steps f ! i) \<noteq> S_REJECTED" if "i < length (steps f)" for i
        using before [of i] after [of i] p that
        by (cases "i < ?c"; cases "i = ?c") auto
      then have "\<not> (\<exists>st\<in>set (steps f). sstatus st = S_REJECTED)"
        by (auto simp: in_set_conv_nth)
      moreover from p c(1) have "\<exists>st\<in>set (steps f). sstatus st \<noteq> S_APPROVED"
        by (metis nth_mem StepStatus.distinct(1))
      ultimately show ?thesis using F_PENDING by auto
    next
      case F_APPROVED
      have s: "sstatus (steps f ! ?c) = S_APPROVED \<and> currentLevel f = totalLevels f"
        using cur c(2) F_APPROVED by (auto simp: stepOk_def)
      with lv have last: "?c = length (steps f) - 1" by auto
      have "sstatus (steps f ! i) = S_APPROVED" if "i < length (steps f)" for i
      proof (cases "i = ?c")
        case True
        with s show ?thesis by blast
      next
        case False
        with that last have "i < ?c" by linarith
        then show ?thesis by (rule before)
      qed
      then show ?thesis using F_APPROVED
        by (auto simp: in_set_conv_nth)
    next
      case F_REJECTED
      with cur c have "sstatus (steps f ! ?c) = S_REJECTED" by (simp add: stepOk_def)
      with c(1) have "\<exists>st\<in>set (steps f). sstatus st = S_REJECTED \<and> sstatus st \<noteq> S_APPROVED"
        by (metis nth_mem StepStatus.distinct(7))
      then show ?thesis using F_REJECTED by auto
    qed
  qed
  then have "steps f \<noteq> [] \<longrightarrow>
            (fstatus f = F_APPROVED \<longleftrightarrow> (\<forall>st\<in>set (steps f). sstatus st = S_APPROVED)) \<and>
            (fstatus f = F_REJECTED \<longleftrightarrow> (\<exists>st\<in>set (steps f). sstatus st = S_REJECTED)) \<and>
            (fstatus f = F_PENDING \<longleftrightarrow>
               \<not> (\<forall>st\<in>set (steps f). sstatus st = S_APPROVED) \<and>
               \<not> (\<exists>st\<in>set (steps f). sstatus st = S_REJECTED))"
    by (cases "fstatus f") auto
  with empty show ?thesis by blast
qed

theorem flow_status_reflects_steps_witness:
  "\<not> list_all (\<lambda>st. sstatus st = S_APPROVED) (steps (newFlow monitor twoLevelRule twoLevels 7)) \<and>
   \<not> list_ex (\<lambda>st. sstatus st = S_REJECTED) (steps (newFlow monitor twoLevelRule twoLevels 7))"
proof -
  have h2: "getFlow monitorService ''flow-exp-4-7'' = Some (newFlow monitor twoLevelRule twoLevels 7)"
    by (simp add: getFlow_def monitorService_flows)
  have ne: "steps (newFlow monitor twoLevelRule twoLevels 7) \<noteq> []"
    by (simp add: twoLevels_def)
  from flow_status_reflects_steps [OF monitorService_reachable h2] ne
  show ?thesis by (simp add: list_all_iff list_ex_iff)
qed

text \<open>
  The claim as stated fails for the flow built from a rule without approval levels: every
  one of its steps is approved, there being none, and its status is not approved.
\<close>

theorem empty_flow_status_counterexample:
  "getFlow noLevelsService ''flow-exp-3-7'' = Some (newFlow lunch noLevelsRule [] 7) \<and>
   list_all (\<lambda>st. sstatus st = S_APPROVED) (steps (newFlow lunch noLevelsRule [] 7)) \<and>
   fstatus (newFlow lunch noLevelsRule [] 7) \<noteq> F_APPROVED"
  by (simp add: getFlow_def noLevelsService_flows)

text \<open>
  Claim C8. In a reachable service, every step of a stored flow before the current level
  is approved, every step after it is pending with no approval recorded, and the step at
  the current level is pending, approved or rejected.
\<close>

theorem level_monotonicity:
  assumes "svc \<in> reachable" and "getFlow svc k = Some f" and "i < length (steps f)"
  shows "(int i + 1 < currentLevel f \<longrightarrow> sstatus (steps f ! i) = S_APPROVED) \<and>
         (currentLevel f < int i + 1 \<longrightarrow>
            sstatus (steps f ! i) = S_PENDING \<and> approvals (steps f ! i) = []) \<and>
         (int i + 1 = currentLevel f \<longrightarrow>
            sstatus (steps f ! i) \<in> {S_PENDING, S_APPROVED, S_REJECTED})"
proof -
  from assms(1,2) have "flowInv f" by (rule reachable_flowInv)
  with assms(3) have "stepOk f i" by (simp add: flowInv_def)
  then show ?thesis
    by (cases "fstatus f") (auto simp: stepOk_def)
qed

theorem level_monotonicity_witness:
  "map_option (\<lambda>f. sstatus (steps f ! 0)) (getFlow monitorLevel2 ''flow-exp-4-7'')
     = Some S_APPROVED \<and>
   map_option (\<lambda>f. sstatus (steps f ! 1)) (getFlow monitorLevel2 ''flow-exp-4-7'')
     \<noteq> Some S_SKIPPED"
proof -
  let ?f = "\<lparr>fid = ''flow-exp-4-7'', expenseId = ''exp-4'', ruleId = Some ''rule-2'', currentLevel = 2,
        totalLevels = 2, fstatus = F_PENDING,
        steps = [\<lparr>level = 1, approverRoles = 1, requiredApprovers = 1,
                  approvals = [mkApproval ''mgr-1'' ''Manager One'' ''MANAGER'' A_APPROVED None 8],
                  sstatus = S_APPROVED, startedAt = Some 7, s_completedAt = Some 8\<rparr>,
                 \<lparr>level = 2, approverRoles = 2, requiredApprovers = 1,
                  approvals = [], sstatus = S_PENDING, startedAt = Some 8,
                  s_completedAt = None\<rparr>],
        createdAt = 7, completedAt = None\<rparr>"
  have h2: "getFlow monitorLevel2 ''flow-exp-4-7'' = Some ?f"
    by (simp add: getFlow_def monitorLevel2_flows)
  have l0: "0 < length (steps ?f)" and l1: "1 < length (steps ?f)" by simp_all
  have c: "currentLevel ?f = 2" by simp
  from level_monotonicity [OF monitorLevel2_reachable h2 l0] c
  have "sstatus (steps ?f ! 0) = S_APPROVED" by (simp del: ApprovalFlow.simps ApprovalStep.simps nth_Cons_0)
  moreover from level_monotonicity [OF monitorLevel2_reachable h2 l1] c
  have "sstatus (steps ?f ! 1) \<noteq> S_SKIPPED"
    by (auto simp del: ApprovalFlow.simps ApprovalStep.simps)
  ultimately show ?thesis using h2 by simp
qed

text \<open>
  Claim C9. A flow returned by \<^verbatim>\<open>createApprovalFlow\<close> copies the number of levels of the
  matched rule and the level and required count of each of them, and each of its steps
  holds the role array of the rule's level itself. A later \<^verbatim>\<open>updateRule\<close> or
  \<^verbatim>\<open>deactivateRule\<close>, of the matched rule or of any other and with any updates, and any
  sequence of \<^verbatim>\<open>addRule\<close>, \<^verbatim>\<open>updateRule\<close> and \<^verbatim>\<open>deactivateRule\<close> calls, leaves the
  \<^verbatim>\<open>Map\<close> of flows as it was, hence the stored flow, its \<^verbatim>\<open>totalLevels\<close> and the level
  and required count of every step, and leaves the role arrays as they were, hence the
  roles that every step accepts: the engine puts a new rule object in the place of the old
  one and writes to no array that the flow shares with it.
\<close>

theorem rule_edits_leave_flows:
  assumes "createApprovalFlow svc e now = (Inr flow, svc1)"
  shows "\<exists>rule levels.
           findMatchingRule (ruleEngine svc) e = Inr (Some rule) \<and>
           approvalLevels rule = Some levels \<and> ruleId flow = rid rule \<and>
           totalLevels flow = int (length levels) \<and>
           map level (steps flow) = map l_level levels \<and>
           map approverRoles (steps flow) = map l_approverRoles levels \<and>
           map requiredApprovers (steps flow) = map l_requiredApprovers levels \<and>
           getFlow svc1 (fid flow) = Some flow \<and>
           (\<forall>impl k u.
              getFlow (snd (updateRule impl svc1 k u)) (fid flow) = Some flow \<and>
              flows (snd (updateRule impl svc1 k u)) = flows svc1 \<and>
              map (\<lambda>st. roleArrays (snd (updateRule impl svc1 k u)) (approverRoles st)) (steps flow)
                = map (\<lambda>st. roleArrays svc1 (approverRoles st)) (steps flow)) \<and>
           (\<forall>impl k.
              getFlow (snd (deactivateRule impl svc1 k)) (fid flow) = Some flow \<and>
              flows (snd (deactivateRule impl svc1 k)) = flows svc1 \<and>
              map (\<lambda>st. roleArrays (snd (deactivateRule impl svc1 k)) (approverRoles st)) (steps flow)
                = map (\<lambda>st. roleArrays svc1 (approverRoles st)) (steps flow)) \<and>
           (\<forall>impl edits.
              getFlow (ruleEdits impl svc1 edits) (fid flow) = Some flow \<and>
              flows (ruleEdits impl svc1 edits) = flows svc1 \<and>
              map (\<lambda>st. roleArrays (ruleEdits impl svc1 edits) (approverRoles st)) (steps flow)
                = map (\<lambda>st. roleArrays svc1 (approverRoles st)) (steps flow))"
proof -
  from createApprovalFlow_cases [OF assms] obtain rule levels where
    r: "findMatchingRule (ruleEngine svc) e = Inr (Some rule)"
    and l: "approvalLevels rule = Some levels"
    and f: "flow = newFlow e rule levels now"
    and s: "svc1 = svc\<lparr>flows := AList.update (fid flow) flow (flows svc)\<rparr>"
    by auto
  have c: "map level (steps flow) = map l_level levels"
    "map approverRoles (steps flow) = map l_approverRoles levels"
    "map requiredApprovers (steps flow) = map l_requiredApprovers levels"
    unfolding f by (simp_all add: steps_copy_levels del: map_map)
  have i: "ruleId flow = rid rule" "totalLevels flow = int (length levels)"
    unfolding f by simp_all
  have g: "map_of (flows svc1) (fid flow) = Some flow"
    unfolding s by (simp add: map_of_update_same)
  then have g1: "getFlow svc1 (fid flow) = Some flow" by (simp add: getFlow_def)
  have u: "getFlow (snd (updateRule impl svc1 k u)) (fid flow) = Some flow \<and>
           flows (snd (updateRule impl svc1 k u)) = flows svc1 \<and>
           map (\<lambda>st. roleArrays (snd (updateRule impl svc1 k u)) (approverRoles st)) (steps flow)
             = map (\<lambda>st. roleArrays svc1 (approverRoles st)) (steps flow)" for impl k u
    using g by (simp add: getFlow_def)
  have d: "getFlow (snd (deactivateRule impl svc1 k)) (fid flow) = Some flow \<and>
           flows (snd (deactivateRule impl svc1 k)) = flows svc1 \<and>
           map (\<lambda>st. roleArrays (snd (deactivateRule impl svc1 k)) (approverRoles st)) (steps flow)
             = map (\<lambda>st. roleArrays svc1 (approverRoles st)) (steps flow)" for impl k
    using g by (simp add: getFlow_def)
  have es: "getFlow (ruleEdits impl svc1 edits) (fid flow) = Some flow \<and>
           flows (ruleEdits impl svc1 edits) = flows svc1 \<and>
           map (\<lambda>st. roleArrays (ruleEdits impl svc1 edits) (approverRoles st)) (steps flow)
             = map (\<lambda>st. roleArrays svc1 (approverRoles st)) (steps flow)" for impl edits
    using g by (simp add: getFlow_def ruleEdits_frame)
  from r l c i g1 u d es show ?thesis by blast
qed

theorem rule_edits_leave_flows_witness:
  "map approvalLevels
     (ruleEngine (snd (updateRule keepOrder monitorService ''rule-2''
        (noUpdates\<lparr>u_approvalLevels := Present (Some [])\<rparr>))))
     = [Some [], approvalLevels singleLevelRule] \<and>
   map_option totalLevels
     (getFlow (snd (updateRule keepOrder monitorService ''rule-2''
        (noUpdates\<lparr>u_approvalLevels := Present (Some [])\<rparr>))) ''flow-exp-4-7'') = Some 2 \<and>
   map (\<lambda>st. roleArrays (snd (updateRule keepOrder monitorService ''rule-2''
        (noUpdates\<lparr>u_approvalLevels := Present (Some [])\<rparr>))) (approverRoles st))
     (steps (newFlow monitor twoLevelRule twoLevels 7)) = [[''MANAGER''], [''DIRECTOR'']]"
proof -
  let ?u = "noUpdates\<lparr>u_approvalLevels := Present (Some [])\<rparr>"
  let ?flow = "newFlow monitor twoLevelRule twoLevels 7"
  have l: "approvalLevels twoLevelRule = Some twoLevels"
    by (simp add: twoLevelRule_def twoLevels_def)
  have c: "createApprovalFlow (newApprovalFlowService testEngine testRoles) monitor 7
             = (Inr ?flow, monitorService)"
    by (simp add: monitorService_def createApprovalFlow_def testRules_monitor l Let_def
          newApprovalFlowService_def)
  have i: "fid ?flow = ''flow-exp-4-7''" by (simp add: monitor_def)
  from rule_edits_leave_flows [OF c] have
    "getFlow (snd (updateRule keepOrder monitorService ''rule-2'' ?u)) (fid ?flow) = Some ?flow \<and>
     map (\<lambda>st. roleArrays (snd (updateRule keepOrder monitorService ''rule-2'' ?u))
                 (approverRoles st)) (steps ?flow)
       = map (\<lambda>st. roleArrays monitorService (approverRoles st)) (steps ?flow)"
    by blast
  moreover have "totalLevels ?flow = 2" by (simp add: twoLevels_def)
  moreover have "map (\<lambda>st. roleArrays monitorService (approverRoles st)) (steps ?flow)
                   = [[''MANAGER''], [''DIRECTOR'']]"
    by (simp add: monitorService_frame testRoles_def twoLevels_def newStep_def)
  moreover have "map approvalLevels
     (ruleEngine (snd (updateRule keepOrder monitorService ''rule-2'' ?u)))
     = [Some [], approvalLevels singleLevelRule]"
    by (simp add: monitorService_frame testEngine_def updateRule_def mergeRule_def noUpdates_def
          sortByPriority_def hasPriority_def priorityOf_def singleLevelRule_def twoLevelRule_def)
  ultimately show ?thesis unfolding i by simp
qed



section \<open>The expense service\<close>

text \<open>
  Claim C1, at the input where the code departs from it. A draft is submitted to a service
  whose engine has no rule: \<^verbatim>\<open>submitExpense\<close> fails with \<open>NoMatchingRule\<close>, and the
  stored expense is left pending with the submission timestamp of the failed call; a second
  submission is refused as already submitted.
\<close>

theorem submitExpense_failure_keeps_writes:
  "map_option estatus (getExpense draftService ''exp-1-abc'') = Some E_DRAFT \<and>
   map_option submittedAt (getExpense draftService ''exp-1-abc'') = Some None \<and>
   fst (submitExpense draftService ''exp-1-abc'' 2) = Inl NoMatchingRule \<and>
   map_option estatus (getExpense (snd (submitExpense draftService ''exp-1-abc'' 2)) ''exp-1-abc'')
     = Some E_PENDING \<and>
   map_option submittedAt (getExpense (snd (submitExpense draftService ''exp-1-abc'' 2)) ''exp-1-abc'')
     = Some (Some 2) \<and>
   fst (submitExpense (snd (submitExpense draftService ''exp-1-abc'' 2)) ''exp-1-abc'' 3)
     = Inl AlreadySubmitted"
  by (simp add: draftService_def expense_eval flow_eval)

text \<open>
  Claim C2, at the inputs where the code departs from it. The flow of the expense is at
  level 1 when the action is validated, and the approval record appended by
  \<^verbatim>\<open>processExpenseApproval\<close> carries level 0, both for a rejection and for an approval
  that leaves the step short of its required count. An approval that advances the flow
  records level 1.
\<close>

theorem approverLevel_off_by_one:
  "map_option currentLevel (getFlowByExpenseId (approvalFlowService pendingService) ''exp-1-abc'')
     = Some 1 \<and>
   map_sum id (\<lambda>e. map approverLevel (approvalHistory e))
     (fst (processExpenseApproval pendingService ''exp-1-abc'' ''mgr-1'' ''Manager One''
             ''MANAGER'' A_REJECTED (Some ''Not in budget'') 3)) = Inr [0] \<and>
   map_option currentLevel
     (getFlowByExpenseId (approvalFlowService pendingTwoManagers) ''exp-1-abc'') = Some 1 \<and>
   map_sum id (\<lambda>e. map approverLevel (approvalHistory e))
     (fst (processExpenseApproval pendingTwoManagers ''exp-1-abc'' ''mgr-1'' ''Manager One''
             ''MANAGER'' A_APPROVED None 3)) = Inr [0] \<and>
   map_sum id (\<lambda>e. map approverLevel (approvalHistory e))
     (fst (processExpenseApproval pendingService ''exp-1-abc'' ''mgr-1'' ''Manager One''
             ''MANAGER'' A_APPROVED None 3)) = Inr [1]"
  by (simp add: pendingService_def pendingTwoManagers_def expense_eval flow_eval)

end
